theory Spec2Isabelle
  imports Main "HOL-Library.AList"
begin

section \<open>The event emitter that the provider builds on\<close>

text \<open>
  \<^verbatim>\<open>LazyInitializationProvider\<close> owns one \<^verbatim>\<open>EventEmitter\<close> (its field
  \<^verbatim>\<open>_emitter\<close>) and, once the factory has resolved, one \<^verbatim>\<open>EthereumProvider\<close>,
  which is an \<^verbatim>\<open>EventEmitter\<close> too. Both are objects of the platform's \<^verbatim>\<open>events\<close>
  module; the embedding follows that module for the operations the class calls, its own
  events \<^verbatim>\<open>newListener\<close> and \<^verbatim>\<open>removeListener\<close> included.

  An event name is a property key: a string or a symbol. An emitter object is named by a
  reference. A listener is a function object: either a callback of the caller, named by a
  number, or the wrapper that \<^verbatim>\<open>once\<close> builds around a listener. The wrapper keeps the
  emitter it was made for (\<^verbatim>\<open>target\<close>), the event name (\<^verbatim>\<open>type\<close>) and the wrapped
  function (\<^verbatim>\<open>listener\<close>); these never change, so they are part of the value, and the
  number is its identity. Its only mutable field, \<^verbatim>\<open>fired\<close>, lives in the state.

  Scope of the embedding: a callback of the caller is opaque and its invocation is
  recorded in a trace (it neither throws nor calls back into the provider); a limit is an
  integer; the platform's symbol \<^verbatim>\<open>errorMonitor\<close> is not among the event names.
\<close>

datatype event = Str string | Sym nat

text \<open>
  Modelled from the spec: the type \<^verbatim>\<open>EthereumProvider\<close> (imported from
  \<^verbatim>\<open>../../../types\<close>) is not among the sources. By the spec a resource satisfies the
  same capability set as the provider object, remote calls and event subscription: a
  resource is an emitter object, named \<open>Resource i\<close>, that records the remote calls it
  receives; what it answers to them is left open.
\<close>

datatype ref = Buffer | Resource nat

datatype fn = Cb nat | OnceWrapper nat ref event fn

text \<open>An argument of a listener: an opaque value, an event name or a function.\<close>

datatype arg = Val nat | Name event | Fun fn

record emitter =
  events :: "(event \<times> fn list) list"
  maxListeners :: "int option"

text \<open>What an emitter method throws.\<close>

datatype error = ERR_OUT_OF_RANGE | ERR_UNHANDLED_ERROR | ERR_INVALID_ARG_TYPE

text \<open>
  Why a promise is rejected: the factory's own reason, an error thrown by an emitter
  method, or the TypeError of a call on \<^verbatim>\<open>undefined\<close>.
\<close>

datatype failure = FactoryFailure nat | Thrown error | TypeError

text \<open>
  The three remote calls with their arguments: \<^verbatim>\<open>request(args)\<close>,
  \<^verbatim>\<open>send(method, params)\<close> and \<^verbatim>\<open>sendAsync(payload, callback)\<close>. Arguments and
  callbacks are opaque and named by numbers.
\<close>

datatype call = Request nat | Send string "nat list" | SendAsync nat nat

text \<open>
  The trace: a callback of the caller was called with arguments; the wrapper with this
  identity passed its test of \<^verbatim>\<open>fired\<close> and set the flag; the callback of a
  \<^verbatim>\<open>sendAsync\<close> was called with an error and no result.
\<close>

datatype entry =
    Called nat "arg list"
  | OnceFired nat
  | SendAsyncCallback nat failure

text \<open>
  How a remote call ends on the side of the provider object: forwarded to a resource
  (whose answer is the call's), rejected, or, for \<^verbatim>\<open>sendAsync\<close>, reported to the
  callback. A call in progress waits for the factory's promise (inside
  \<^verbatim>\<open>_initProvider\<close>) or, once that function's promise is settled, for its own
  continuation.
\<close>

datatype outcome = Forwarded nat | Rejected failure | ErrorToCallback failure

datatype task = Idle | AwaitFactory call | AwaitInit call "failure option" | Done outcome

text \<open>
  The state of one provider object and of the objects it reaches: the two fields of the
  class, the emitter objects by reference (\<^verbatim>\<open>_emitter\<close> is the object at
  \<^const>\<open>Buffer\<close>), the resources that exist (for one that does not exist yet,
  \<open>emitters\<close> holds the state it will be created with), the \<^verbatim>\<open>fired\<close> flags of the
  wrappers, the number of times the factory was called, the pending remote calls, the
  trace of callback invocations and the remote calls that resources received.
\<close>

record proxy =
  provider :: "nat option"
  emitters :: "ref \<Rightarrow> emitter"
  objects :: "nat list"
  fired :: "nat set"
  next_wrapper :: nat
  factory_calls :: nat
  tasks :: "nat \<Rightarrow> task"
  trace :: "entry list"
  rpc :: "(nat \<times> call) list"

definition defaultMaxListeners :: int where
  "defaultMaxListeners = 10"

definition new_EventEmitter :: emitter where
  "new_EventEmitter = \<lparr>events = [], maxListeners = None\<rparr>"

text \<open>
  \<^verbatim>\<open>_events\<close> is an object whose keys are the event names with at least one listener,
  kept here in the order in which the keys were added.
\<close>

definition listeners_of :: "emitter \<Rightarrow> event \<Rightarrow> fn list" where
  "listeners_of em e = (case map_of (events em) e of None \<Rightarrow> [] | Some ls \<Rightarrow> ls)"

definition set_listeners :: "event \<Rightarrow> fn list \<Rightarrow> emitter \<Rightarrow> emitter" where
  "set_listeners e ls em =
     em\<lparr>events := (if ls = [] then AList.delete e (events em)
                    else AList.update e ls (events em))\<rparr>"

text \<open>
  \<^verbatim>\<open>removeListener\<close> scans the list from its end for the first entry that is the
  function itself or a wrapper around it (\<^verbatim>\<open>list[i] === listener || list[i].listener === listener\<close>)
  and removes that entry.
\<close>

fun is_listener :: "fn \<Rightarrow> fn \<Rightarrow> bool" where
  "is_listener l (Cb c) = (Cb c = l)"
| "is_listener l (OnceWrapper w tgt ty f) = (OnceWrapper w tgt ty f = l \<or> f = l)"

fun remove_first :: "fn \<Rightarrow> fn list \<Rightarrow> fn list" where
  "remove_first l [] = []"
| "remove_first l (x # xs) = (if is_listener l x then xs else x # remove_first l xs)"

definition remove_last :: "fn \<Rightarrow> fn list \<Rightarrow> fn list" where
  "remove_last l xs = rev (remove_first l (rev xs))"

text \<open>
  \<^verbatim>\<open>setMaxListeners(n)\<close> throws a RangeError for a negative \<open>n\<close>;
  \<^verbatim>\<open>getMaxListeners()\<close> returns the default limit while none was set.
\<close>

definition setMaxListeners_em :: "int \<Rightarrow> emitter \<Rightarrow> error + emitter" where
  "setMaxListeners_em n em =
     (if n < 0 then Inl ERR_OUT_OF_RANGE else Inr (em\<lparr>maxListeners := Some n\<rparr>))"

definition getMaxListeners_em :: "emitter \<Rightarrow> int" where
  "getMaxListeners_em em =
     (case maxListeners em of None \<Rightarrow> defaultMaxListeners | Some n \<Rightarrow> n)"

text \<open>
  \<^verbatim>\<open>listeners(type)\<close> gives, for a wrapper, the function it wraps
  (\<^verbatim>\<open>listener.listener ?? listener\<close>).
\<close>

fun unwrap :: "fn \<Rightarrow> fn" where
  "unwrap (Cb c) = Cb c"
| "unwrap (OnceWrapper w tgt ty f) = f"

text \<open>
  \<^verbatim>\<open>eventNames()\<close> is \<^verbatim>\<open>Reflect.ownKeys(this._events)\<close>: first the keys that are
  array indices (the decimal numeral, without leading zeros, of a number below
  \<open>2\<^sup>3\<^sup>2 - 1\<close>) in ascending numeric order, then the other strings in the order in which
  they were added, then the symbols in that order.
\<close>

definition digit :: "char \<Rightarrow> int option" where
  "digit c =
     map_of [(CHR ''0'', 0), (CHR ''1'', 1), (CHR ''2'', 2), (CHR ''3'', 3), (CHR ''4'', 4),
             (CHR ''5'', 5), (CHR ''6'', 6), (CHR ''7'', 7), (CHR ''8'', 8), (CHR ''9'', 9)] c"

fun number :: "int \<Rightarrow> string \<Rightarrow> int option" where
  "number n [] = Some n"
| "number n (c # cs) = (case digit c of None \<Rightarrow> None | Some d \<Rightarrow> number (10 * n + d) cs)"

definition array_index :: "string \<Rightarrow> int option" where
  "array_index s =
     (case s of
        [] \<Rightarrow> None
      | c # cs \<Rightarrow>
          if c = CHR ''0'' \<and> cs \<noteq> [] then None
          else (case number 0 s of
                  None \<Rightarrow> None
                | Some n \<Rightarrow> if n < 4294967295 then Some n else None))"

fun index_of :: "event \<Rightarrow> int option" where
  "index_of (Str s) = array_index s"
| "index_of (Sym i) = None"

fun is_symbol :: "event \<Rightarrow> bool" where
  "is_symbol (Str s) = False"
| "is_symbol (Sym i) = True"

definition ownKeys :: "event list \<Rightarrow> event list" where
  "ownKeys ks =
     sort_key (\<lambda>k. case index_of k of None \<Rightarrow> 0 | Some n \<Rightarrow> n) [k \<leftarrow> ks. index_of k \<noteq> None]
     @ [k \<leftarrow> ks. index_of k = None \<and> \<not> is_symbol k]
     @ [k \<leftarrow> ks. is_symbol k]"

definition eventNames_em :: "emitter \<Rightarrow> event list" where
  "eventNames_em em = ownKeys (map fst (events em))"

text \<open>
  Applying an operation to the emitter object behind a reference. \<^verbatim>\<open>_emitter\<close> exists
  from the start, a resource from the moment the factory has made it.
\<close>

definition on_emitter :: "ref \<Rightarrow> (emitter \<Rightarrow> emitter) \<Rightarrow> proxy \<Rightarrow> proxy" where
  "on_emitter r f s = s\<lparr>emitters := (emitters s)(r := f (emitters s r))\<rparr>"

fun alive :: "proxy \<Rightarrow> ref \<Rightarrow> bool" where
  "alive s Buffer = True"
| "alive s (Resource i) = (i \<in> set (objects s))"

subsection \<open>Calling listeners\<close>

text \<open>
  Listeners call \<^verbatim>\<open>removeListener\<close>, which emits an event, which calls listeners. The
  embedding keeps the calls that are still to be made on a stack of jobs.
  \<^item> \<open>Call l args\<close> calls the listener \<open>l\<close>. A callback is recorded. The wrapper of
    \<^verbatim>\<open>once\<close> is
    \<^verbatim>\<open>if (!this.fired) { this.target.removeListener(this.type, this.wrapFn);
    this.fired = true; return this.listener.apply(this.target, arguments); }\<close>:
    three jobs in this order.
  \<^item> \<open>Remove r e l\<close> is \<^verbatim>\<open>removeListener(e, l)\<close> on the emitter \<open>r\<close>. If an entry
    is removed and the emitter then has listeners for \<^verbatim>\<open>removeListener\<close>, these are
    called (from a copy of their list) with the event name and the listener: the wrapped
    function of the removed entry when it was the only listener of the event
    (\<^verbatim>\<open>list.listener || listener\<close>), the argument \<open>l\<close> otherwise.
  \<^item> \<open>SetFired w\<close> sets the flag of the wrapper \<open>w\<close>.
\<close>

datatype job = Call fn "arg list" | Remove ref event fn | SetFired nat

definition removes :: "ref \<Rightarrow> event \<Rightarrow> fn \<Rightarrow> proxy \<Rightarrow> bool" where
  "removes r e l s = (alive s r \<and> list_ex (is_listener l) (listeners_of (emitters s r) e))"

definition removed :: "ref \<Rightarrow> event \<Rightarrow> fn \<Rightarrow> proxy \<Rightarrow> proxy" where
  "removed r e l s =
     on_emitter r (set_listeners e (remove_last l (listeners_of (emitters s r) e))) s"

definition removed_arg :: "ref \<Rightarrow> event \<Rightarrow> fn \<Rightarrow> proxy \<Rightarrow> fn" where
  "removed_arg r e l s = (case listeners_of (emitters s r) e of [x] \<Rightarrow> unwrap x | _ \<Rightarrow> l)"

definition calls :: "ref \<Rightarrow> event \<Rightarrow> arg list \<Rightarrow> proxy \<Rightarrow> job list" where
  "calls r e args s = map (\<lambda>l. Call l args) (listeners_of (emitters s r) e)"

text \<open>The measure of termination: the listeners still registered, then the jobs.\<close>

definition count_em :: "emitter \<Rightarrow> nat" where
  "count_em em = sum_list (map (\<lambda>kv. length (snd kv)) (events em))"

definition registered :: "proxy \<Rightarrow> nat" where
  "registered s =
     count_em (emitters s Buffer) +
     sum_list (map (\<lambda>i. count_em (emitters s (Resource i))) (objects s))"

fun fn_weight :: "fn \<Rightarrow> nat" where
  "fn_weight (Cb c) = 1"
| "fn_weight (OnceWrapper w tgt ty f) = fn_weight f + 3"

fun weight :: "job \<Rightarrow> nat" where
  "weight (Call l args) = fn_weight l"
| "weight (Remove r e l) = 1"
| "weight (SetFired w) = 1"


function exec :: "job list \<Rightarrow> proxy \<Rightarrow> proxy" where
  "exec [] s = s"
| "exec (Call (Cb c) args # js) s = exec js (s\<lparr>trace := trace s @ [Called c args]\<rparr>)"
| "exec (Call (OnceWrapper w tgt ty f) args # js) s =
     (if w \<in> fired s then exec js s
      else exec (Remove tgt ty (OnceWrapper w tgt ty f) # SetFired w # Call f args # js) s)"
| "exec (SetFired w # js) s =
     exec js (s\<lparr>fired := insert w (fired s), trace := trace s @ [OnceFired w]\<rparr>)"
| "exec (Remove r e l # js) s =
     (if removes r e l s
      then exec (calls r (Str ''removeListener'') [Name e, Fun (removed_arg r e l s)]
                   (removed r e l s) @ js)
             (removed r e l s)
      else exec js s)"
  by pat_completeness auto

subsection \<open>The methods of an emitter\<close>

text \<open>
  \<^verbatim>\<open>emit(type, ...args)\<close>: an \<^verbatim>\<open>error\<close> event without a listener throws;
  otherwise the listeners of a copy of the list are called in order, and the result tells
  whether there was one.
\<close>

definition emit_em :: "ref \<Rightarrow> event \<Rightarrow> arg list \<Rightarrow> proxy \<Rightarrow> (error + bool) \<times> proxy" where
  "emit_em r e args s =
     (let ls = listeners_of (emitters s r) e in
      if ls = [] then (if e = Str ''error'' then Inl ERR_UNHANDLED_ERROR else Inr False, s)
      else (Inr True, exec (calls r e args s) s))"

text \<open>
  \<^verbatim>\<open>_addListener(target, type, listener, prepend)\<close>: if the emitter has listeners for
  \<^verbatim>\<open>newListener\<close>, they are called first, with the event name and
  \<^verbatim>\<open>listener.listener ?? listener\<close>; then the listener is put at the front or at
  the end of the list the event has by then.
\<close>

definition addListener_em :: "bool \<Rightarrow> ref \<Rightarrow> event \<Rightarrow> fn \<Rightarrow> proxy \<Rightarrow> proxy" where
  "addListener_em prepend r e l s =
     on_emitter r
       (\<lambda>em. set_listeners e
                (if prepend then l # listeners_of em e else listeners_of em e @ [l]) em)
       (exec (calls r (Str ''newListener'') [Name e, Fun (unwrap l)] s) s)"

text \<open>\<^verbatim>\<open>once(type, listener)\<close> is \<^verbatim>\<open>this.on(type, _onceWrap(this, type, listener))\<close>.\<close>

definition onceWrap :: "ref \<Rightarrow> event \<Rightarrow> fn \<Rightarrow> proxy \<Rightarrow> fn \<times> proxy" where
  "onceWrap r e l s =
     (OnceWrapper (next_wrapper s) r e l, s\<lparr>next_wrapper := Suc (next_wrapper s)\<rparr>)"

definition once_em :: "bool \<Rightarrow> ref \<Rightarrow> event \<Rightarrow> fn \<Rightarrow> proxy \<Rightarrow> proxy" where
  "once_em prepend r e l s =
     (let (w, s') = onceWrap r e l s in addListener_em prepend r e w s')"

definition removeListener_em :: "ref \<Rightarrow> event \<Rightarrow> fn \<Rightarrow> proxy \<Rightarrow> proxy" where
  "removeListener_em r e l s = exec [Remove r e l] s"

text \<open>
  \<^verbatim>\<open>removeAllListeners(type)\<close>, called with one argument. Without listeners for
  \<^verbatim>\<open>removeListener\<close> the key is deleted. With such listeners a single listener is
  removed by \<^verbatim>\<open>removeListener\<close>, and a list is walked from its last index down:
  \<^verbatim>\<open>for (i = listeners.length - 1; i >= 0; i--) this.removeListener(type, listeners[i])\<close>.
  \<^verbatim>\<open>listeners\<close> is the array itself, which the removals shorten; it is the event's
  list as long as that has two entries or more, and keeps its last entry afterwards. When
  listeners that were called in between have shortened it below the index,
  \<^verbatim>\<open>listeners[i]\<close> is \<^verbatim>\<open>undefined\<close> and \<^verbatim>\<open>removeListener\<close> throws a TypeError.
\<close>

fun removeAll_loop :: "ref \<Rightarrow> event \<Rightarrow> nat \<Rightarrow> proxy \<Rightarrow> error option \<times> proxy" where
  "removeAll_loop r e 0 s =
     (case listeners_of (emitters s r) e of
        [] \<Rightarrow> (None, s)
      | x # xs \<Rightarrow> (None, exec [Remove r e x] s))"
| "removeAll_loop r e (Suc i) s =
     (if Suc i < length (listeners_of (emitters s r) e)
      then removeAll_loop r e i (exec [Remove r e (listeners_of (emitters s r) e ! Suc i)] s)
      else (Some ERR_INVALID_ARG_TYPE, s))"

definition removeAllListeners_em :: "ref \<Rightarrow> event \<Rightarrow> proxy \<Rightarrow> error option \<times> proxy" where
  "removeAllListeners_em r e s =
     (if listeners_of (emitters s r) (Str ''removeListener'') = []
      then (None, on_emitter r (set_listeners e []) s)
      else case listeners_of (emitters s r) e of
             [] \<Rightarrow> (None, s)
           | [x] \<Rightarrow> (None, exec [Remove r e x] s)
           | x # y # ys \<Rightarrow> removeAll_loop r e (Suc (length ys)) s)"


section \<open>LazyInitializationProvider\<close>

text \<open>\<^verbatim>\<open>_getEmitter\<close>: the provider once the field is set, \<^verbatim>\<open>_emitter\<close> before.\<close>

definition getEmitter :: "proxy \<Rightarrow> ref" where
  "getEmitter s = (case provider s of None \<Rightarrow> Buffer | Some r \<Rightarrow> Resource r)"

subsection \<open>EventEmitter methods\<close>

datatype val = This | Number int | Functions "fn list" | Boolean bool | Names "event list"

definition addListener :: "event \<Rightarrow> fn \<Rightarrow> proxy \<Rightarrow> (error + val) \<times> proxy" where
  "addListener e l s = (Inr This, addListener_em False (getEmitter s) e l s)"

definition on :: "event \<Rightarrow> fn \<Rightarrow> proxy \<Rightarrow> (error + val) \<times> proxy" where
  "on e l s = (Inr This, addListener_em False (getEmitter s) e l s)"

definition once :: "event \<Rightarrow> fn \<Rightarrow> proxy \<Rightarrow> (error + val) \<times> proxy" where
  "once e l s = (Inr This, once_em False (getEmitter s) e l s)"

definition prependListener :: "event \<Rightarrow> fn \<Rightarrow> proxy \<Rightarrow> (error + val) \<times> proxy" where
  "prependListener e l s = (Inr This, addListener_em True (getEmitter s) e l s)"

definition prependOnceListener :: "event \<Rightarrow> fn \<Rightarrow> proxy \<Rightarrow> (error + val) \<times> proxy" where
  "prependOnceListener e l s = (Inr This, once_em True (getEmitter s) e l s)"

definition removeListener :: "event \<Rightarrow> fn \<Rightarrow> proxy \<Rightarrow> (error + val) \<times> proxy" where
  "removeListener e l s = (Inr This, removeListener_em (getEmitter s) e l s)"

definition off :: "event \<Rightarrow> fn \<Rightarrow> proxy \<Rightarrow> (error + val) \<times> proxy" where
  "off e l s = (Inr This, removeListener_em (getEmitter s) e l s)"

text \<open>
  \<^verbatim>\<open>removeAllListeners(event?)\<close> always passes its parameter on, so the emitter sees
  one argument also when the caller gave none: the property key is then the string
  \<^verbatim>\<open>undefined\<close>.
\<close>

definition removeAllListeners :: "event option \<Rightarrow> proxy \<Rightarrow> (error + val) \<times> proxy" where
  "removeAllListeners eo s =
     (case removeAllListeners_em (getEmitter s)
             (case eo of None \<Rightarrow> Str ''undefined'' | Some e \<Rightarrow> e) s of
        (None, s') \<Rightarrow> (Inr This, s')
      | (Some err, s') \<Rightarrow> (Inl err, s'))"

definition setMaxListeners :: "int \<Rightarrow> proxy \<Rightarrow> (error + val) \<times> proxy" where
  "setMaxListeners n s =
     (case setMaxListeners_em n (emitters s (getEmitter s)) of
        Inl err \<Rightarrow> (Inl err, s)
      | Inr em \<Rightarrow> (Inr This, on_emitter (getEmitter s) (\<lambda>_. em) s))"

definition getMaxListeners :: "proxy \<Rightarrow> (error + val) \<times> proxy" where
  "getMaxListeners s = (Inr (Number (getMaxListeners_em (emitters s (getEmitter s)))), s)"

definition listeners :: "event \<Rightarrow> proxy \<Rightarrow> (error + val) \<times> proxy" where
  "listeners e s =
     (Inr (Functions (map unwrap (listeners_of (emitters s (getEmitter s)) e))), s)"

definition rawListeners :: "event \<Rightarrow> proxy \<Rightarrow> (error + val) \<times> proxy" where
  "rawListeners e s = (Inr (Functions (listeners_of (emitters s (getEmitter s)) e)), s)"

definition emit :: "event \<Rightarrow> arg list \<Rightarrow> proxy \<Rightarrow> (error + val) \<times> proxy" where
  "emit e args s =
     (case emit_em (getEmitter s) e args s of
        (Inl err, s') \<Rightarrow> (Inl err, s')
      | (Inr b, s') \<Rightarrow> (Inr (Boolean b), s'))"

definition eventNames :: "proxy \<Rightarrow> (error + val) \<times> proxy" where
  "eventNames s = (Inr (Names (eventNames_em (emitters s (getEmitter s)))), s)"

definition listenerCount :: "event \<Rightarrow> proxy \<Rightarrow> (error + val) \<times> proxy" where
  "listenerCount e s =
     (Inr (Number (int (length (listeners_of (emitters s (getEmitter s)) e)))), s)"

subsection \<open>Initialization\<close>

text \<open>
  \<^verbatim>\<open>_initProvider\<close> is an async function with one suspension point, the
  \<^verbatim>\<open>await this._providerFactory()\<close> of line 143. Up to there it runs inside the
  calling remote call: the test of the field and the call of the factory.
\<close>

definition initProvider_call :: "nat \<Rightarrow> call \<Rightarrow> proxy \<Rightarrow> proxy" where
  "initProvider_call t c s =
     (case provider s of
        None \<Rightarrow> s\<lparr>factory_calls := Suc (factory_calls s),
                  tasks := (tasks s)(t := AwaitFactory c)\<rparr>
      | Some r \<Rightarrow> s\<lparr>tasks := (tasks s)(t := AwaitInit c None)\<rparr>)"

text \<open>
  The two loops of lines 148 to 154, for the provider \<open>r\<close>: for each name of
  \<^verbatim>\<open>this._emitter.eventNames()\<close>, for each listener of
  \<^verbatim>\<open>this._emitter.rawListeners(event)\<close>, \<^verbatim>\<open>this.provider.on(event, listener)\<close> and
  then \<^verbatim>\<open>this._emitter.removeListener(event, listener)\<close>.
\<close>

definition move_listener :: "nat \<Rightarrow> event \<Rightarrow> fn \<Rightarrow> proxy \<Rightarrow> proxy" where
  "move_listener r e l s =
     removeListener_em Buffer e l (addListener_em False (Resource r) e l s)"

definition move_event :: "nat \<Rightarrow> event \<Rightarrow> proxy \<Rightarrow> proxy" where
  "move_event r e s = fold (move_listener r e) (listeners_of (emitters s Buffer) e) s"

definition copy_events :: "nat \<Rightarrow> proxy \<Rightarrow> proxy" where
  "copy_events r s = fold (move_event r) (eventNames_em (emitters s Buffer)) s"

text \<open>
  When the factory's promise is fulfilled with the provider \<open>r\<close>, the function goes on
  without another suspension: it assigns the field, copies the listeners and sets the
  provider's limit. If the promise is rejected, the \<^verbatim>\<open>await\<close> throws and nothing of
  this runs.
\<close>

definition initProvider_resolved :: "nat \<Rightarrow> call \<Rightarrow> nat \<Rightarrow> proxy \<Rightarrow> proxy" where
  "initProvider_resolved t c r s =
     (let s1 = copy_events r (s\<lparr>provider := Some r\<rparr>) in
      case setMaxListeners_em (getMaxListeners_em (emitters s1 Buffer)) (emitters s1 (Resource r)) of
        Inl err \<Rightarrow> s1\<lparr>tasks := (tasks s1)(t := AwaitInit c (Some (Thrown err)))\<rparr>
      | Inr em \<Rightarrow> (on_emitter (Resource r) (\<lambda>_. em) s1)
                   \<lparr>tasks := (tasks s1)(t := AwaitInit c None)\<rparr>)"

definition initProvider_rejected :: "nat \<Rightarrow> call \<Rightarrow> nat \<Rightarrow> proxy \<Rightarrow> proxy" where
  "initProvider_rejected t c x s =
     s\<lparr>tasks := (tasks s)(t := AwaitInit c (Some (FactoryFailure x)))\<rparr>"

subsection \<open>Provider methods\<close>

text \<open>
  \<^verbatim>\<open>request\<close>, \<^verbatim>\<open>send\<close> and \<^verbatim>\<open>sendAsync\<close> all begin with a call of
  \<^verbatim>\<open>_initProvider\<close> (\<^const>\<open>initProvider_call\<close>) and go on once its promise is
  settled. Fulfilled, each forwards its call: \<^verbatim>\<open>this.provider!\<close> reads the field at
  that moment, and the call is recorded with the provider that receives it. Rejected,
  \<^verbatim>\<open>request\<close> and \<^verbatim>\<open>send\<close> are rejected with the same failure (their
  \<^verbatim>\<open>await\<close> throws), and \<^verbatim>\<open>sendAsync\<close> calls \<^verbatim>\<open>callback(e, null)\<close>.
\<close>

definition forward :: "nat \<Rightarrow> call \<Rightarrow> proxy \<Rightarrow> proxy" where
  "forward t c s =
     (case provider s of
        None \<Rightarrow> s\<lparr>tasks := (tasks s)(t := Done (Rejected TypeError))\<rparr>
      | Some r \<Rightarrow> s\<lparr>rpc := rpc s @ [(r, c)], tasks := (tasks s)(t := Done (Forwarded r))\<rparr>)"

fun continue :: "nat \<Rightarrow> call \<Rightarrow> failure option \<Rightarrow> proxy \<Rightarrow> proxy" where
  "continue t c None s = forward t c s"
| "continue t (SendAsync p cb) (Some f) s =
     s\<lparr>trace := trace s @ [SendAsyncCallback cb f],
       tasks := (tasks s)(t := Done (ErrorToCallback f))\<rparr>"
| "continue t c (Some f) s = s\<lparr>tasks := (tasks s)(t := Done (Rejected f))\<rparr>"

subsection \<open>Executions\<close>

datatype facade_op =
    AddListener event fn | On event fn | Once event fn
  | PrependListener event fn | PrependOnceListener event fn
  | RemoveListener event fn | Off event fn | RemoveAllListeners "event option"
  | SetMaxListeners int | GetMaxListeners | Listeners event | RawListeners event
  | Emit event "arg list" | EventNames | ListenerCount event

fun facade :: "facade_op \<Rightarrow> proxy \<Rightarrow> (error + val) \<times> proxy" where
  "facade (AddListener e l) s = addListener e l s"
| "facade (On e l) s = on e l s"
| "facade (Once e l) s = once e l s"
| "facade (PrependListener e l) s = prependListener e l s"
| "facade (PrependOnceListener e l) s = prependOnceListener e l s"
| "facade (RemoveListener e l) s = removeListener e l s"
| "facade (Off e l) s = off e l s"
| "facade (RemoveAllListeners eo) s = removeAllListeners eo s"
| "facade (SetMaxListeners n) s = setMaxListeners n s"
| "facade GetMaxListeners s = getMaxListeners s"
| "facade (Listeners e) s = listeners e s"
| "facade (RawListeners e) s = rawListeners e s"
| "facade (Emit e args) s = emit e args s"
| "facade EventNames s = eventNames s"
| "facade (ListenerCount e) s = listenerCount e s"

text \<open>
  The scheduler is cooperative: a step is one synchronous section. \<open>Invoke t c\<close> is a
  caller invoking the remote call \<open>c\<close> as task \<open>t\<close>; \<open>FactoryResolves t r\<close> and
  \<open>FactoryRejects t x\<close> settle the factory's promise that task \<open>t\<close> awaits, the first
  with the resource \<open>r\<close>, which exists from then on; \<open>Resume\<close> runs the caller's
  continuation; \<open>Facade\<close> is a call of an EventEmitter method of the provider object;
  \<open>ResourceEmits\<close> is an existing resource emitting an event of its own. A step that the
  state does not allow gives \<open>None\<close>.
\<close>

datatype action =
    Invoke nat call
  | FactoryResolves nat nat
  | FactoryRejects nat nat
  | Resume nat
  | Facade facade_op
  | ResourceEmits nat event "arg list"

definition created :: "nat \<Rightarrow> proxy \<Rightarrow> proxy" where
  "created r s = s\<lparr>objects := List.insert r (objects s)\<rparr>"

fun step :: "action \<Rightarrow> proxy \<Rightarrow> proxy option" where
  "step (Invoke t c) s = (if tasks s t = Idle then Some (initProvider_call t c s) else None)"
| "step (FactoryResolves t r) s =
     (case tasks s t of
        AwaitFactory c \<Rightarrow> Some (initProvider_resolved t c r (created r s))
      | _ \<Rightarrow> None)"
| "step (FactoryRejects t x) s =
     (case tasks s t of AwaitFactory c \<Rightarrow> Some (initProvider_rejected t c x s) | _ \<Rightarrow> None)"
| "step (Resume t) s =
     (case tasks s t of AwaitInit c res \<Rightarrow> Some (continue t c res s) | _ \<Rightarrow> None)"
| "step (Facade op) s = Some (snd (facade op s))"
| "step (ResourceEmits r e args) s =
     (if alive s (Resource r) then Some (snd (emit_em (Resource r) e args s)) else None)"

fun run :: "action list \<Rightarrow> proxy \<Rightarrow> proxy option" where
  "run [] s = Some s"
| "run (a # as) s = (case step a s of None \<Rightarrow> None | Some s' \<Rightarrow> run as s')"

text \<open>
  \<^verbatim>\<open>new LazyInitializationProvider(factory)\<close>: no provider, a fresh \<^verbatim>\<open>_emitter\<close>, no
  resource yet. \<open>world\<close> gives the emitter state with which the factory makes each
  resource, and \<open>n\<close> is the first unused wrapper identity.
\<close>

definition new_LazyInitializationProvider :: "(nat \<Rightarrow> emitter) \<Rightarrow> nat \<Rightarrow> proxy" where
  "new_LazyInitializationProvider world n =
     \<lparr>provider = None,
      emitters = (\<lambda>r. case r of Buffer \<Rightarrow> new_EventEmitter | Resource i \<Rightarrow> world i),
      objects = [], fired = {}, next_wrapper = n, factory_calls = 0, tasks = (\<lambda>_. Idle),
      trace = [], rpc = []\<rparr>"

section \<open>Notions used in the statements\<close>

text \<open>
  The well-formedness of the object \<^verbatim>\<open>_emitter\<close>: its property keys are distinct, as
  the keys of an object are, and its limit is one that \<^verbatim>\<open>setMaxListeners\<close> accepts.
\<close>

definition buffer_ok :: "emitter \<Rightarrow> bool" where
  "buffer_ok em = (distinct (map fst (events em)) \<and> 0 \<le> getMaxListeners_em em)"

text \<open>
  When an EventEmitter method throws, by the emitter's own rules: a negative limit, and an
  \<^verbatim>\<open>error\<close> event that nobody listens to.
\<close>

fun throws :: "facade_op \<Rightarrow> emitter \<Rightarrow> bool" where
  "throws (SetMaxListeners n) em = (n < 0)"
| "throws (Emit e args) em = (e = Str ''error'' \<and> listeners_of em e = [])"
| "throws _ em = False"

text \<open>
  One more way to throw comes with the \<^verbatim>\<open>removeListener\<close> event.
  \<^verbatim>\<open>removeAllListeners(type)\<close>, when that event has listeners and \<open>type\<close> has two or more,
  removes the listeners of \<open>type\<close> one by one from the last index down; if listeners of
  \<^verbatim>\<open>removeListener\<close> remove further entries of the same array meanwhile, the loop reads
  past its end and \<^verbatim>\<open>removeListener(type, undefined)\<close> throws.
\<close>

fun reads_past_end :: "facade_op \<Rightarrow> proxy \<Rightarrow> bool" where
  "reads_past_end (RemoveAllListeners eo) s =
     (let r = getEmitter s;
          e = (case eo of None \<Rightarrow> Str ''undefined'' | Some e \<Rightarrow> e);
          ls = listeners_of (emitters s r) e
      in listeners_of (emitters s r) (Str ''removeListener'') \<noteq> [] \<and> 2 \<le> length ls \<and>
         fst (removeAll_loop r e (length ls - 1) s) \<noteq> None)"
| "reads_past_end _ s = False"

text \<open>The task that an action belongs to, if it is a step of a remote call.\<close>

fun task_of :: "action \<Rightarrow> nat option" where
  "task_of (Invoke t c) = Some t"
| "task_of (FactoryResolves t r) = Some t"
| "task_of (FactoryRejects t x) = Some t"
| "task_of (Resume t) = Some t"
| "task_of (Facade op) = None"
| "task_of (ResourceEmits r e args) = None"

section \<open>Calling listeners terminates\<close>

lemma count_delete:
  "map_of al e = Some ls \<Longrightarrow>
   sum_list (map (\<lambda>kv. length (snd kv)) (AList.delete e al)) + length ls
     \<le> sum_list (map (\<lambda>kv. length (snd kv)) al)"
proof (induction al)
  case Nil
  then show ?case by simp
next
  case (Cons p al)
  have le: "sum_list (map (\<lambda>kv. length (snd kv)) (AList.delete e xs))
              \<le> sum_list (map (\<lambda>kv. length (snd kv)) xs)" for xs
    by (induction xs) auto
  show ?case
  proof (cases "fst p = e")
    case True
    with Cons.prems have "snd p = ls" by (cases p) simp
    then show ?thesis using True le [of al] by simp
  next
    case False
    with Cons show ?thesis by (cases p) auto
  qed
qed

lemma count_update:
  "map_of al e = Some ls \<Longrightarrow>
   sum_list (map (\<lambda>kv. length (snd kv)) (AList.update e ls' al)) + length ls
     = sum_list (map (\<lambda>kv. length (snd kv)) al) + length ls'"
  by (induction al) (auto split: if_splits)

lemma count_em_set_listeners:
  assumes "length ls' < length (listeners_of em e)"
  shows "count_em (set_listeners e ls' em) < count_em em"
proof -
  from assms obtain ls where ls: "map_of (events em) e = Some ls" "length ls' < length ls"
    by (auto simp: listeners_of_def split: option.splits)
  show ?thesis
    using count_delete [OF ls(1)] count_update [OF ls(1), of ls'] ls(2)
    by (auto simp: count_em_def set_listeners_def)
qed

lemma length_remove_first:
  "list_ex (is_listener l) xs \<Longrightarrow> length (remove_first l xs) < length xs"
  by (induction xs) auto

lemma length_remove_last:
  "list_ex (is_listener l) xs \<Longrightarrow> length (remove_last l xs) < length xs"
  using length_remove_first [of l "rev xs"] by (simp add: remove_last_def list_ex_iff)

lemma sum_list_map_less:
  "i \<in> set xs \<Longrightarrow> g i < f i \<Longrightarrow> (\<And>x. x \<noteq> i \<Longrightarrow> g x = f x) \<Longrightarrow>
   sum_list (map g xs) < sum_list (map (f :: nat \<Rightarrow> nat) xs)"
proof (induction xs)
  case Nil
  then show ?case by simp
next
  case (Cons x xs)
  have le: "sum_list (map g ys) \<le> sum_list (map f ys)" for ys
    using Cons.prems(2,3) by (induction ys) (auto, metis add_mono less_imp_le order_refl)
  show ?case
  proof (cases "x = i")
    case True
    then show ?thesis using Cons.prems(2) le [of xs] by simp
  next
    case False
    with Cons have "sum_list (map g xs) < sum_list (map f xs)" by simp
    then show ?thesis using False Cons.prems(3) by simp
  qed
qed

lemma registered_removed:
  assumes "removes r e l s"
  shows "registered (removed r e l s) < registered s"
proof -
  let ?em = "set_listeners e (remove_last l (listeners_of (emitters s r) e)) (emitters s r)"
  have less: "count_em ?em < count_em (emitters s r)"
    using assms by (intro count_em_set_listeners length_remove_last) (simp add: removes_def)
  show ?thesis
  proof (cases r)
    case Buffer
    then show ?thesis using less by (simp add: registered_def removed_def on_emitter_def)
  next
    case (Resource i)
    with assms have i: "i \<in> set (objects s)" by (simp add: removes_def)
    have "sum_list (map (\<lambda>j. count_em (((emitters s)(Resource i := ?em)) (Resource j))) (objects s))
          < sum_list (map (\<lambda>j. count_em (emitters s (Resource j))) (objects s))"
      using i less Resource by (intro sum_list_map_less [of i]) auto
    then show ?thesis using Resource by (simp add: registered_def removed_def on_emitter_def)
  qed
qed

termination exec
proof (relation "measures [\<lambda>(js, s). registered s, \<lambda>(js, s). sum_list (map weight js)]",
    goal_cases)
  case 1
  show ?case by simp
next
  case (2 c args js s)
  show ?case by (simp add: registered_def)
next
  case (3 w tgt ty f args js s)
  show ?case by simp
next
  case (4 w tgt ty f args js s)
  show ?case by simp
next
  case (5 w js s)
  show ?case by (simp add: registered_def)
next
  case (6 r e l js s)
  then show ?case by (simp add: registered_removed)
next
  case (7 r e l js s)
  show ?case by simp
qed

section \<open>Executions: basic facts\<close>

lemma run_append:
  "run (as @ bs) s = (case run as s of None \<Rightarrow> None | Some s' \<Rightarrow> run bs s')"
  by (induction as arbitrary: s) (auto split: option.splits)

lemma run_Cons_Some:
  "run (a # as) s = Some s' \<longleftrightarrow> (\<exists>s1. step a s = Some s1 \<and> run as s1 = Some s')"
  by (simp split: option.splits)

lemma run_append_Some:
  "run (as @ bs) s = Some s' \<longleftrightarrow> (\<exists>s1. run as s = Some s1 \<and> run bs s1 = Some s')"
  by (simp add: run_append split: option.splits)

lemma invokes_state:
  "provider s = None \<Longrightarrow> \<forall>t<N. tasks s t = Idle \<Longrightarrow>
   run (map (\<lambda>t. Invoke t (c t)) [0..<N]) s =
     Some (s\<lparr>factory_calls := factory_calls s + N,
             tasks := (\<lambda>t. if t < N then AwaitFactory (c t) else tasks s t)\<rparr>)"
proof (induction N)
  case 0
  then show ?case by simp
next
  case (Suc N)
  have eq: "(\<lambda>t. if t < Suc N then AwaitFactory (c t) else tasks s t)
          = (\<lambda>t. if t < N then AwaitFactory (c t) else tasks s t)(N := AwaitFactory (c N))"
    by (auto simp: fun_eq_iff)
  from Suc show ?case
    by (simp add: run_append initProvider_call_def eq)
qed

section \<open>What the emitter operations leave alone\<close>

lemma on_emitter_fields [simp]:
  "provider (on_emitter r f s) = provider s"
  "objects (on_emitter r f s) = objects s"
  "fired (on_emitter r f s) = fired s"
  "next_wrapper (on_emitter r f s) = next_wrapper s"
  "factory_calls (on_emitter r f s) = factory_calls s"
  "tasks (on_emitter r f s) = tasks s"
  "trace (on_emitter r f s) = trace s"
  "rpc (on_emitter r f s) = rpc s"
  "emitters (on_emitter r f s) = (emitters s)(r := f (emitters s r))"
  by (simp_all add: on_emitter_def)

lemma removed_fields [simp]:
  "provider (removed r e l s) = provider s"
  "objects (removed r e l s) = objects s"
  "fired (removed r e l s) = fired s"
  "next_wrapper (removed r e l s) = next_wrapper s"
  "factory_calls (removed r e l s) = factory_calls s"
  "tasks (removed r e l s) = tasks s"
  "trace (removed r e l s) = trace s"
  "rpc (removed r e l s) = rpc s"
  by (simp_all add: removed_def)

lemma exec_frame:
  "provider (exec js s) = provider s \<and> factory_calls (exec js s) = factory_calls s \<and>
   tasks (exec js s) = tasks s \<and> rpc (exec js s) = rpc s \<and>
   next_wrapper (exec js s) = next_wrapper s \<and> objects (exec js s) = objects s"
  by (induction js s rule: exec.induct) simp_all

text \<open>
  Calling listeners changes an emitter only by removing listeners, so it keeps every
  property of an emitter that \<^const>\<open>set_listeners\<close> keeps.
\<close>

lemma exec_keeps:
  assumes "\<And>e ls em. P em \<Longrightarrow> P (set_listeners e ls em)"
  shows "P (emitters s r) \<Longrightarrow> P (emitters (exec js s) r)"
proof (induction js s rule: exec.induct)
  case (5 r' e l js s)
  show ?case
  proof (cases "removes r' e l s")
    case True
    have "P (emitters (removed r' e l s) r)"
      using "5.prems" assms by (auto simp: removed_def)
    from "5.IH"(1) [OF True this] True show ?thesis by simp
  next
    case False
    from "5.IH"(2) [OF False "5.prems"] False show ?thesis by simp
  qed
qed simp_all

lemma maxListeners_set_listeners [simp]:
  "maxListeners (set_listeners e ls em) = maxListeners em"
  by (simp add: set_listeners_def)

lemma maxListeners_exec [simp]:
  "maxListeners (emitters (exec js s) r) = maxListeners (emitters s r)"
  using exec_keeps [of "\<lambda>em. maxListeners em = maxListeners (emitters s r)" s r js] by simp

lemma emit_em_frame:
  "provider (snd (emit_em r e a s)) = provider s \<and>
   factory_calls (snd (emit_em r e a s)) = factory_calls s \<and>
   tasks (snd (emit_em r e a s)) = tasks s \<and> rpc (snd (emit_em r e a s)) = rpc s \<and>
   next_wrapper (snd (emit_em r e a s)) = next_wrapper s \<and>
   objects (snd (emit_em r e a s)) = objects s"
  by (simp add: emit_em_def Let_def exec_frame)

lemma addListener_em_frame:
  "provider (addListener_em b r e l s) = provider s \<and>
   factory_calls (addListener_em b r e l s) = factory_calls s \<and>
   tasks (addListener_em b r e l s) = tasks s \<and> rpc (addListener_em b r e l s) = rpc s \<and>
   next_wrapper (addListener_em b r e l s) = next_wrapper s \<and>
   objects (addListener_em b r e l s) = objects s"
  by (simp add: addListener_em_def exec_frame)

lemma once_em_frame:
  "provider (once_em b r e l s) = provider s \<and> factory_calls (once_em b r e l s) = factory_calls s \<and>
   tasks (once_em b r e l s) = tasks s \<and> rpc (once_em b r e l s) = rpc s \<and>
   objects (once_em b r e l s) = objects s"
  by (simp add: once_em_def onceWrap_def addListener_em_frame)

lemma removeListener_em_frame:
  "provider (removeListener_em r e l s) = provider s \<and>
   factory_calls (removeListener_em r e l s) = factory_calls s \<and>
   tasks (removeListener_em r e l s) = tasks s \<and> rpc (removeListener_em r e l s) = rpc s \<and>
   next_wrapper (removeListener_em r e l s) = next_wrapper s \<and>
   objects (removeListener_em r e l s) = objects s"
  by (simp add: removeListener_em_def exec_frame)

lemma removeAll_loop_frame:
  "provider (snd (removeAll_loop r e i s)) = provider s \<and>
   factory_calls (snd (removeAll_loop r e i s)) = factory_calls s \<and>
   tasks (snd (removeAll_loop r e i s)) = tasks s \<and> rpc (snd (removeAll_loop r e i s)) = rpc s \<and>
   next_wrapper (snd (removeAll_loop r e i s)) = next_wrapper s \<and>
   objects (snd (removeAll_loop r e i s)) = objects s"
proof (induction i arbitrary: s)
  case 0
  show ?case by (simp add: exec_frame split: list.splits)
next
  case (Suc i)
  show ?case using Suc [of "exec [Remove r e (listeners_of (emitters s r) e ! Suc i)] s"]
    by (simp add: exec_frame)
qed

lemma removeAllListeners_em_frame:
  "provider (snd (removeAllListeners_em r e s)) = provider s \<and>
   factory_calls (snd (removeAllListeners_em r e s)) = factory_calls s \<and>
   tasks (snd (removeAllListeners_em r e s)) = tasks s \<and>
   rpc (snd (removeAllListeners_em r e s)) = rpc s \<and>
   next_wrapper (snd (removeAllListeners_em r e s)) = next_wrapper s \<and>
   objects (snd (removeAllListeners_em r e s)) = objects s"
  by (simp add: removeAllListeners_em_def exec_frame removeAll_loop_frame split: list.splits)

lemma facade_frame:
  "provider (snd (facade op s)) = provider s \<and>
   factory_calls (snd (facade op s)) = factory_calls s \<and>
   tasks (snd (facade op s)) = tasks s \<and> rpc (snd (facade op s)) = rpc s \<and>
   objects (snd (facade op s)) = objects s"
proof (cases op)
  case (Emit e a)
  then show ?thesis
    using emit_em_frame [of "getEmitter s" e a s]
    by (auto simp: emit_def split: prod.splits sum.splits)
next
  case (RemoveAllListeners eo)
  then show ?thesis
    using removeAllListeners_em_frame
      [of "getEmitter s" "case eo of None \<Rightarrow> Str ''undefined'' | Some e \<Rightarrow> e" s]
    by (auto simp: removeAllListeners_def split: prod.splits option.splits)
qed (simp_all add: addListener_def on_def once_def prependListener_def
      prependOnceListener_def removeListener_def off_def
      setMaxListeners_def getMaxListeners_def listeners_def rawListeners_def
      eventNames_def listenerCount_def once_em_frame addListener_em_frame
      removeListener_em_frame split: sum.splits)

text \<open>The migration.\<close>

lemma move_listener_frame:
  "provider (move_listener r e l s) = provider s \<and>
   factory_calls (move_listener r e l s) = factory_calls s \<and>
   tasks (move_listener r e l s) = tasks s \<and> rpc (move_listener r e l s) = rpc s \<and>
   next_wrapper (move_listener r e l s) = next_wrapper s \<and>
   objects (move_listener r e l s) = objects s"
  by (simp add: move_listener_def removeListener_em_frame addListener_em_frame)

lemma fold_move_listener_frame:
  "provider (fold (move_listener r e) ls s) = provider s \<and>
   factory_calls (fold (move_listener r e) ls s) = factory_calls s \<and>
   tasks (fold (move_listener r e) ls s) = tasks s \<and>
   rpc (fold (move_listener r e) ls s) = rpc s \<and>
   next_wrapper (fold (move_listener r e) ls s) = next_wrapper s \<and>
   objects (fold (move_listener r e) ls s) = objects s"
  by (induction ls arbitrary: s) (simp_all add: move_listener_frame)

lemma fold_move_event_frame:
  "provider (fold (move_event r) es s) = provider s \<and>
   factory_calls (fold (move_event r) es s) = factory_calls s \<and>
   tasks (fold (move_event r) es s) = tasks s \<and>
   rpc (fold (move_event r) es s) = rpc s \<and>
   next_wrapper (fold (move_event r) es s) = next_wrapper s \<and>
   objects (fold (move_event r) es s) = objects s"
  by (induction es arbitrary: s) (simp_all add: move_event_def fold_move_listener_frame)

lemma copy_events_frame [simp]:
  "provider (copy_events r s) = provider s"
  "factory_calls (copy_events r s) = factory_calls s"
  "tasks (copy_events r s) = tasks s"
  "rpc (copy_events r s) = rpc s"
  "next_wrapper (copy_events r s) = next_wrapper s"
  "objects (copy_events r s) = objects s"
  by (simp_all add: copy_events_def fold_move_event_frame)

text \<open>The limit of \<^verbatim>\<open>_emitter\<close> is not touched by the migration.\<close>

lemma maxListeners_addListener_em_other:
  "r' \<noteq> r \<Longrightarrow>
   maxListeners (emitters (addListener_em b r e l s) r') = maxListeners (emitters s r')"
  by (simp add: addListener_em_def)

lemma maxListeners_move_listener:
  "maxListeners (emitters (move_listener r e l s) Buffer) = maxListeners (emitters s Buffer)"
  by (simp add: move_listener_def removeListener_em_def maxListeners_addListener_em_other
      del: exec.simps)

lemma maxListeners_fold_move_listener:
  "maxListeners (emitters (fold (move_listener r e) ls s) Buffer) = maxListeners (emitters s Buffer)"
  by (induction ls arbitrary: s) (simp_all add: maxListeners_move_listener)

lemma maxListeners_fold_move_event:
  "maxListeners (emitters (fold (move_event r) es s) Buffer) = maxListeners (emitters s Buffer)"
  by (induction es arbitrary: s) (simp_all add: move_event_def maxListeners_fold_move_listener)

lemma maxListeners_copy_events:
  "maxListeners (emitters (copy_events r s) Buffer) = maxListeners (emitters s Buffer)"
  by (simp add: copy_events_def maxListeners_fold_move_event)

section \<open>The buffer stays well formed\<close>

lemma distinct_set_listeners:
  "distinct (map fst (events em)) \<Longrightarrow> distinct (map fst (events (set_listeners e ls em)))"
  by (simp add: set_listeners_def distinct_update distinct_delete)

lemma buffer_ok_set_listeners: "buffer_ok em \<Longrightarrow> buffer_ok (set_listeners e ls em)"
  by (simp add: buffer_ok_def distinct_set_listeners getMaxListeners_em_def)

lemma buffer_ok_setMaxListeners_em:
  "setMaxListeners_em n em = Inr em' \<Longrightarrow> buffer_ok em \<Longrightarrow> buffer_ok em'"
  by (auto simp: setMaxListeners_em_def buffer_ok_def getMaxListeners_em_def split: if_splits)

lemma buffer_ok_exec:
  "buffer_ok (emitters s Buffer) \<Longrightarrow> buffer_ok (emitters (exec js s) Buffer)"
  by (rule exec_keeps [of buffer_ok]) (rule buffer_ok_set_listeners)

lemma buffer_ok_emit_em:
  "buffer_ok (emitters s Buffer) \<Longrightarrow> buffer_ok (emitters (snd (emit_em r e a s)) Buffer)"
  by (simp add: emit_em_def Let_def buffer_ok_exec del: exec.simps)

lemma buffer_ok_addListener_em:
  "buffer_ok (emitters s Buffer) \<Longrightarrow> buffer_ok (emitters (addListener_em b r e l s) Buffer)"
  by (simp add: addListener_em_def buffer_ok_exec buffer_ok_set_listeners del: exec.simps)

lemma buffer_ok_once_em:
  "buffer_ok (emitters s Buffer) \<Longrightarrow> buffer_ok (emitters (once_em b r e l s) Buffer)"
  by (simp add: once_em_def onceWrap_def buffer_ok_addListener_em)

lemma buffer_ok_removeListener_em:
  "buffer_ok (emitters s Buffer) \<Longrightarrow> buffer_ok (emitters (removeListener_em r e l s) Buffer)"
  by (simp add: removeListener_em_def buffer_ok_exec del: exec.simps)

lemma buffer_ok_removeAll_loop:
  "buffer_ok (emitters s Buffer) \<Longrightarrow> buffer_ok (emitters (snd (removeAll_loop r e i s)) Buffer)"
proof (induction i arbitrary: s)
  case 0
  then show ?case by (simp add: buffer_ok_exec del: exec.simps split: list.splits)
next
  case (Suc i)
  then show ?case by (simp add: buffer_ok_exec del: exec.simps)
qed

lemma buffer_ok_removeAllListeners_em:
  "buffer_ok (emitters s Buffer) \<Longrightarrow>
   buffer_ok (emitters (snd (removeAllListeners_em r e s)) Buffer)"
  by (simp add: removeAllListeners_em_def buffer_ok_exec buffer_ok_removeAll_loop
      buffer_ok_set_listeners del: exec.simps removeAll_loop.simps split: list.splits)

lemma buffer_ok_facade:
  assumes "buffer_ok (emitters s Buffer)"
  shows "buffer_ok (emitters (snd (facade op s)) Buffer)"
proof (cases op)
  case (Emit e a)
  then show ?thesis
    using buffer_ok_emit_em [OF assms, of "getEmitter s" e a]
    by (auto simp: emit_def split: prod.splits sum.splits)
next
  case (SetMaxListeners n)
  then show ?thesis
    using assms
    by (auto simp: setMaxListeners_def split: sum.splits dest: buffer_ok_setMaxListeners_em)
next
  case (RemoveAllListeners eo)
  then show ?thesis
    using buffer_ok_removeAllListeners_em
      [OF assms, of "getEmitter s" "case eo of None \<Rightarrow> Str ''undefined'' | Some e \<Rightarrow> e"]
    by (auto simp: removeAllListeners_def split: prod.splits option.splits)
qed (use assms in \<open>simp_all add: addListener_def on_def once_def prependListener_def
      prependOnceListener_def removeListener_def off_def
      getMaxListeners_def listeners_def rawListeners_def
      eventNames_def listenerCount_def buffer_ok_once_em buffer_ok_addListener_em
      buffer_ok_removeListener_em\<close>)

lemma buffer_ok_move_listener:
  "buffer_ok (emitters s Buffer) \<Longrightarrow> buffer_ok (emitters (move_listener r e l s) Buffer)"
  by (simp add: move_listener_def buffer_ok_removeListener_em buffer_ok_addListener_em)

lemma buffer_ok_fold_move_listener:
  "buffer_ok (emitters s Buffer) \<Longrightarrow>
   buffer_ok (emitters (fold (move_listener r e) ls s) Buffer)"
  by (induction ls arbitrary: s) (simp_all add: buffer_ok_move_listener)

lemma buffer_ok_fold_move_event:
  "buffer_ok (emitters s Buffer) \<Longrightarrow> buffer_ok (emitters (fold (move_event r) es s) Buffer)"
  by (induction es arbitrary: s) (simp_all add: move_event_def buffer_ok_fold_move_listener)

lemma buffer_ok_copy_events:
  "buffer_ok (emitters s Buffer) \<Longrightarrow> buffer_ok (emitters (copy_events r s) Buffer)"
  by (simp add: copy_events_def buffer_ok_fold_move_event)

lemma buffer_ok_initProvider_resolved:
  assumes "buffer_ok (emitters s Buffer)"
  shows "buffer_ok (emitters (initProvider_resolved t c r s) Buffer)"
proof -
  have "buffer_ok (emitters (copy_events r (s\<lparr>provider := Some r\<rparr>)) Buffer)"
    using assms by (simp add: buffer_ok_copy_events)
  then show ?thesis
    by (simp add: initProvider_resolved_def Let_def split: sum.splits)
qed

lemma continue_frame:
  "provider (continue t c res s) = provider s \<and> emitters (continue t c res s) = emitters s \<and>
   factory_calls (continue t c res s) = factory_calls s \<and> fired (continue t c res s) = fired s \<and>
   next_wrapper (continue t c res s) = next_wrapper s \<and>
   objects (continue t c res s) = objects s"
  by (cases "(t, c, res, s)" rule: continue.cases) (simp_all add: forward_def split: option.splits)

lemma buffer_ok_step:
  "step a s = Some s' \<Longrightarrow> buffer_ok (emitters s Buffer) \<Longrightarrow> buffer_ok (emitters s' Buffer)"
  by (cases a)
     (auto simp: initProvider_call_def initProvider_rejected_def buffer_ok_initProvider_resolved
        continue_frame buffer_ok_facade buffer_ok_emit_em created_def
        split: if_splits task.splits option.splits)

lemma buffer_ok_run:
  "run as s = Some s' \<Longrightarrow> buffer_ok (emitters s Buffer) \<Longrightarrow> buffer_ok (emitters s' Buffer)"
  by (induction as arbitrary: s) (auto split: option.splits dest: buffer_ok_step)

lemma buffer_ok_new:
  "buffer_ok (emitters (new_LazyInitializationProvider world n) Buffer)"
  by (simp add: new_LazyInitializationProvider_def new_EventEmitter_def buffer_ok_def
      getMaxListeners_em_def defaultMaxListeners_def)

section \<open>The listener limit\<close>

lemma initProvider_resolved_ok:
  assumes "buffer_ok (emitters s Buffer)"
  shows "initProvider_resolved t c r s =
           (on_emitter (Resource r) (\<lambda>em. em\<lparr>maxListeners := Some (getMaxListeners_em (emitters s Buffer))\<rparr>)
              (copy_events r (s\<lparr>provider := Some r\<rparr>)))
           \<lparr>tasks := (tasks s)(t := AwaitInit c None)\<rparr>"
proof -
  let ?s1 = "copy_events r (s\<lparr>provider := Some r\<rparr>)"
  have m: "getMaxListeners_em (emitters ?s1 Buffer) = getMaxListeners_em (emitters s Buffer)"
    by (simp add: getMaxListeners_em_def maxListeners_copy_events)
  have "0 \<le> getMaxListeners_em (emitters s Buffer)"
    using assms by (simp add: buffer_ok_def)
  then show ?thesis
    by (simp add: initProvider_resolved_def Let_def m setMaxListeners_em_def on_emitter_def)
qed

lemma initProvider_resolved_limit:
  assumes "buffer_ok (emitters s Buffer)"
  shows "provider (initProvider_resolved t c r s) = Some r \<and>
         tasks (initProvider_resolved t c r s) = (tasks s)(t := AwaitInit c None) \<and>
         rpc (initProvider_resolved t c r s) = rpc s \<and>
         factory_calls (initProvider_resolved t c r s) = factory_calls s \<and>
         maxListeners (emitters (initProvider_resolved t c r s) (Resource r)) =
           Some (getMaxListeners_em (emitters s Buffer))"
  by (simp add: initProvider_resolved_ok [OF assms])

section \<open>When an EventEmitter method throws\<close>

lemma removeAllListeners_throws:
  "isl (fst (removeAllListeners eo s)) = reads_past_end (RemoveAllListeners eo) s"
  by (auto simp: removeAllListeners_def removeAllListeners_em_def Let_def
      simp del: exec.simps removeAll_loop.simps
      split: prod.splits option.splits list.splits)

lemma facade_throws:
  "isl (fst (facade op s)) = (throws op (emitters s (getEmitter s)) \<or> reads_past_end op s)"
proof (cases op)
  case (RemoveAllListeners eo)
  then show ?thesis using removeAllListeners_throws [of eo s] by simp
qed (auto simp: addListener_def on_def once_def prependListener_def
      prependOnceListener_def removeListener_def off_def
      setMaxListeners_def getMaxListeners_def listeners_def rawListeners_def
      eventNames_def listenerCount_def emit_def emit_em_def Let_def setMaxListeners_em_def
      simp del: exec.simps split: sum.splits prod.splits if_splits)

section \<open>Tasks and the field provider\<close>

lemma continue_other_task:
  "u \<noteq> t \<Longrightarrow> tasks (continue t c res s) u = tasks s u"
  by (cases "(t, c, res, s)" rule: continue.cases) (simp_all add: forward_def split: option.splits)

lemma step_other_task:
  assumes "step a s = Some s'" and "task_of a \<noteq> Some t"
  shows "tasks s' t = tasks s t"
proof (cases a)
  case (Facade op)
  then show ?thesis using assms facade_frame [of op s] by auto
next
  case (ResourceEmits r e args)
  then show ?thesis using assms emit_em_frame [of "Resource r" e args s]
    by (auto split: if_splits)
next
  case (FactoryResolves u r)
  then show ?thesis
    using assms
    by (auto simp: initProvider_resolved_def Let_def created_def split: task.splits sum.splits)
qed (use assms in \<open>auto simp: initProvider_call_def initProvider_rejected_def continue_other_task
      split: if_splits task.splits option.splits\<close>)

lemma run_other_tasks:
  "run as s = Some s' \<Longrightarrow> list_all (\<lambda>a. task_of a \<noteq> Some t) as \<Longrightarrow> tasks s' t = tasks s t"
proof (induction as arbitrary: s)
  case Nil
  then show ?case by simp
next
  case (Cons a as)
  then show ?case
    by (auto simp del: run.simps step.simps simp: run_Cons_Some dest: step_other_task)
qed

lemma provider_never_cleared_step:
  assumes "step a s = Some s'" and "provider s \<noteq> None"
  shows "provider s' \<noteq> None"
proof (cases a)
  case (Facade op)
  then show ?thesis using assms facade_frame [of op s] by auto
next
  case (ResourceEmits r e args)
  then show ?thesis using assms emit_em_frame [of "Resource r" e args s]
    by (auto split: if_splits)
next
  case (FactoryResolves u r)
  then show ?thesis
    using assms
    by (auto simp: initProvider_resolved_def Let_def created_def split: task.splits sum.splits)
next
  case (Resume u)
  then show ?thesis using assms by (auto simp: continue_frame split: task.splits)
qed (use assms in \<open>auto simp: initProvider_call_def initProvider_rejected_def
      split: if_splits task.splits option.splits\<close>)

lemma provider_never_cleared:
  "run as s = Some s' \<Longrightarrow> provider s \<noteq> None \<Longrightarrow> provider s' \<noteq> None"
proof (induction as arbitrary: s)
  case Nil
  then show ?case by simp
next
  case (Cons a as)
  then show ?case
    by (auto simp del: run.simps step.simps simp: run_Cons_Some dest: provider_never_cleared_step)
qed

lemma done_is_final:
  "tasks s t = Done outcome \<Longrightarrow> task_of a = Some t \<Longrightarrow> step a s = None"
  by (cases a) simp_all

lemma invoke_pending:
  "step (Invoke t c) s = Some s' \<Longrightarrow>
   tasks s' t = AwaitFactory c \<or> tasks s' t = AwaitInit c None"
  by (auto simp: initProvider_call_def split: if_splits option.splits)

lemma invoke_frame:
  "step (Invoke t c) s = Some s' \<Longrightarrow>
   rpc s' = rpc s \<and> trace s' = trace s \<and> emitters s' = emitters s"
  by (auto simp: initProvider_call_def split: if_splits option.splits)

lemma factory_not_called_again_step:
  assumes "step a s = Some s'" and "provider s \<noteq> None"
  shows "factory_calls s' = factory_calls s"
proof (cases a)
  case (Facade op)
  then show ?thesis using assms facade_frame [of op s] by auto
next
  case (ResourceEmits r e args)
  then show ?thesis using assms emit_em_frame [of "Resource r" e args s]
    by (auto split: if_splits)
next
  case (FactoryResolves u r)
  then show ?thesis
    using assms
    by (auto simp: initProvider_resolved_def Let_def created_def split: task.splits sum.splits)
next
  case (Resume u)
  then show ?thesis using assms by (auto simp: continue_frame split: task.splits)
qed (use assms in \<open>auto simp: initProvider_call_def initProvider_rejected_def
      split: if_splits task.splits option.splits\<close>)

lemma factory_not_called_again:
  "run as s = Some s' \<Longrightarrow> provider s \<noteq> None \<Longrightarrow> factory_calls s' = factory_calls s"
proof (induction as arbitrary: s)
  case Nil
  then show ?case by simp
next
  case (Cons a as)
  from Cons.prems obtain s1 where s1: "step a s = Some s1" "run as s1 = Some s'"
    by (auto simp del: run.simps step.simps simp: run_Cons_Some)
  have "provider s1 \<noteq> None"
    using provider_never_cleared_step [OF s1(1) Cons.prems(2)] .
  from Cons.IH [OF s1(2) this] factory_not_called_again_step [OF s1(1) Cons.prems(2)]
  show ?case by simp
qed

section \<open>Single construction\<close>

text \<open>
  C1 says that any number \<open>N \<ge> 1\<close> of remote calls invoked before construction
  completes calls the factory exactly once. The guard of \<^verbatim>\<open>_initProvider\<close> tests the
  field \<^verbatim>\<open>provider\<close>, which is assigned only after the factory's promise is
  fulfilled, so every call that arrives before that passes the guard and calls the factory
  itself: \<open>N\<close> calls invoked on a new object, none of them resumed yet, have called the
  factory \<open>N\<close> times. Already for \<open>N = 2\<close> the code does not do what C1 says.
\<close>

theorem concurrent_calls_each_invoke_factory:
  "map_option factory_calls
     (run (map (\<lambda>t. Invoke t (c t)) [0..<N]) (new_LazyInitializationProvider world n)) = Some N"
  by (subst invokes_state) (simp_all add: new_LazyInitializationProvider_def)

section \<open>Listeners registered before construction\<close>

text \<open>
  C2 says that the listeners registered before construction are, after it, registered on
  the resource with the same semantics, a listener of \<open>once\<close> still being one that is
  removed when it has run. The migration registers the wrapper that \<^verbatim>\<open>rawListeners\<close>
  returns with \<^verbatim>\<open>this.provider.on\<close>, and the wrapper removes itself from the emitter it
  was made for, which is \<^verbatim>\<open>_emitter\<close>. So the callback still runs once, but the listener
  stays listed on the provider object: after \<open>once\<close>, a successful construction and two
  \<open>emit\<close>s the provider object counts one listener and lists the callback, where a
  listener registered with \<open>once\<close> after construction is gone after the first \<open>emit\<close>.
  On this input the code does not do what C2 says.
\<close>

theorem migrated_once_listener_stays_listed:
  "map_option (\<lambda>s. (fst (listenerCount (Str ''a'') s), fst (listeners (Str ''a'') s), trace s))
     (run [Facade (Once (Str ''a'') (Cb 1)), Invoke 0 (Request 0), FactoryResolves 0 0, Resume 0,
           Facade (Emit (Str ''a'') []), Facade (Emit (Str ''a'') [])]
        (new_LazyInitializationProvider (\<lambda>_. new_EventEmitter) 0))
   = Some (Inr (Number 1), Inr (Functions [Cb 1]), [OnceFired 0, Called 1 []]) \<and>
   map_option (\<lambda>s. (fst (listenerCount (Str ''a'') s), fst (listeners (Str ''a'') s), trace s))
     (run [Invoke 0 (Request 0), FactoryResolves 0 0, Resume 0, Facade (Once (Str ''a'') (Cb 1)),
           Facade (Emit (Str ''a'') []), Facade (Emit (Str ''a'') [])]
        (new_LazyInitializationProvider (\<lambda>_. new_EventEmitter) 0))
   = Some (Inr (Number 0), Inr (Functions []), [OnceFired 0, Called 1 []])"
  by code_simp

section \<open>A listener registered with once before construction\<close>

text \<open>
  C3 says that a listener registered with \<open>once\<close> before construction fires exactly
  once in the lifetime of the provider object. With one remote call it does: after
  \<open>once\<close>, a successful construction and three emissions of the event (two through the
  provider object, one by the resource) the callback has been called once. With two remote
  calls invoked before either factory promise settles (see C1), the first resolution moves
  the wrapper to resource 0 and the second assigns the field \<open>provider\<close> to resource
  1. From then on the provider object counts no listener for the event, and neither its
  own \<open>emit\<close> nor an event of resource 1 calls the callback: after the same three
  emissions the callback has never been called, and the wrapper sits unfired on resource
  0. On this input the code does not do what C3 says.
\<close>

theorem once_listener_lost_in_race:
  "map_option (\<lambda>s. (provider s, listeners_of (emitters s (Resource 0)) (Str ''a''),
                    fst (listenerCount (Str ''a'') s), trace s))
     (run [Facade (Once (Str ''a'') (Cb 1)), Invoke 0 (Request 0), Invoke 1 (Request 1),
           FactoryResolves 0 0, FactoryResolves 1 1, Resume 0, Resume 1,
           Facade (Emit (Str ''a'') []), ResourceEmits 1 (Str ''a'') [],
           Facade (Emit (Str ''a'') [])]
        (new_LazyInitializationProvider (\<lambda>_. new_EventEmitter) 0))
   = Some (Some 1, [OnceWrapper 0 Buffer (Str ''a'') (Cb 1)], Inr (Number 0), []) \<and>
   map_option trace
     (run [Facade (Once (Str ''a'') (Cb 1)), Invoke 0 (Request 0),
           FactoryResolves 0 0, Resume 0,
           Facade (Emit (Str ''a'') []), ResourceEmits 0 (Str ''a'') [],
           Facade (Emit (Str ''a'') [])]
        (new_LazyInitializationProvider (\<lambda>_. new_EventEmitter) 0))
   = Some [OnceFired 0, Called 1 []]"
  by code_simp

section \<open>Recovery from a failed construction\<close>

lemma run_facade_total: "\<exists>s'. run (map Facade ops) s = Some s'"
  by (induction ops arbitrary: s) simp_all

lemma run_facade_frame:
  "run (map Facade ops) s = Some s' \<Longrightarrow>
   provider s' = provider s \<and> factory_calls s' = factory_calls s \<and>
   tasks s' = tasks s \<and> rpc s' = rpc s"
proof (induction ops arbitrary: s)
  case Nil
  then show ?case by simp
next
  case (Cons a ops)
  then show ?case using facade_frame [of a s] by simp
qed

text \<open>
  What a rejected factory promise leaves behind: the field \<open>provider\<close> is still unset,
  every emitter object and every wrapper is as it was, and the call has failed with the
  factory's failure. After any EventEmitter methods, the next remote call calls the
  factory again, and its resolution sets the field.
\<close>

lemma failed_construction_is_retried:
  assumes "provider s = None" "tasks s t = Idle" "tasks s u = Idle" "t \<noteq> u"
  shows "\<exists>s1 s2 s3.
           run [Invoke t c, FactoryRejects t x, Resume t] s = Some s1 \<and>
           provider s1 = None \<and> emitters s1 = emitters s \<and> fired s1 = fired s \<and>
           factory_calls s1 = Suc (factory_calls s) \<and>
           tasks s1 t = Done (case c of SendAsync p cb \<Rightarrow> ErrorToCallback (FactoryFailure x)
                                 | _ \<Rightarrow> Rejected (FactoryFailure x)) \<and>
           run (map Facade ops) s1 = Some s2 \<and>
           run [Invoke u d, FactoryResolves u r] s2 = Some s3 \<and>
           factory_calls s3 = factory_calls s + 2 \<and> provider s3 = Some r"
proof -
  let ?sa = "initProvider_call t c s"
  let ?sb = "initProvider_rejected t c x ?sa"
  let ?s1 = "continue t c (Some (FactoryFailure x)) ?sb"
  have sa: "tasks ?sa t = AwaitFactory c" "provider ?sa = None" "emitters ?sa = emitters s"
    "factory_calls ?sa = Suc (factory_calls s)" "tasks ?sa u = Idle" "fired ?sa = fired s"
    using assms by (simp_all add: initProvider_call_def)
  have sb: "tasks ?sb t = AwaitInit c (Some (FactoryFailure x))" "provider ?sb = None"
    "emitters ?sb = emitters s" "factory_calls ?sb = Suc (factory_calls s)" "tasks ?sb u = Idle"
    "fired ?sb = fired s"
    using sa assms by (simp_all add: initProvider_rejected_def)
  have s1: "provider ?s1 = None" "emitters ?s1 = emitters s" "fired ?s1 = fired s"
    "factory_calls ?s1 = Suc (factory_calls s)" "tasks ?s1 u = Idle"
    "tasks ?s1 t = Done (case c of SendAsync p cb \<Rightarrow> ErrorToCallback (FactoryFailure x)
                                 | _ \<Rightarrow> Rejected (FactoryFailure x))"
    using sb assms by (cases c; simp)+
  have r1: "run [Invoke t c, FactoryRejects t x, Resume t] s = Some ?s1"
    using assms sa sb by simp
  obtain s2 where s2: "run (map Facade ops) ?s1 = Some s2"
    using run_facade_total by blast
  have f2: "provider s2 = None" "tasks s2 u = Idle" "factory_calls s2 = Suc (factory_calls s)"
    using run_facade_frame [OF s2] s1 by simp_all
  let ?sc = "initProvider_call u d s2"
  let ?s3 = "initProvider_resolved u d r (created r ?sc)"
  have sc: "tasks ?sc u = AwaitFactory d" "factory_calls ?sc = factory_calls s + 2"
    using f2 by (simp_all add: initProvider_call_def)
  have r3: "run [Invoke u d, FactoryResolves u r] s2 = Some ?s3"
    using f2 sc by simp
  have s3: "provider ?s3 = Some r" "factory_calls ?s3 = factory_calls s + 2"
    using sc by (simp_all add: initProvider_resolved_def Let_def created_def split: sum.splits)
  show ?thesis
    using r1 s1 s2 r3 s3 by blast
qed

text \<open>
  C4 says that after a failed first attempt the next remote call calls the factory again
  and that every listener registered before or between the attempts is preserved into the
  migration that then succeeds. The first part holds (\<open>failed_construction_is_retried\<close>).
  The second fails in the migration loop: \<^verbatim>\<open>this._emitter.removeListener(event, listener)\<close>
  of line 152 emits the emitter's own \<^verbatim>\<open>removeListener\<close> event, and a listener that
  was registered for that event with \<open>once\<close> is called then, removes itself from
  \<^verbatim>\<open>_emitter\<close>, and is gone when the outer loop reaches its event name. With \<open>on\<close>
  before the failed attempt and \<open>once\<close> for \<^verbatim>\<open>removeListener\<close> between the attempts,
  the failure leaves the buffer as it was and the second attempt calls the factory again,
  but the resource ends with the first listener only; the second was called during the
  migration and is registered nowhere. A listener for another event, registered the same
  way, is moved. On this input the code does not do what C4 says.
\<close>

theorem listener_lost_in_recovery:
  "map_option (\<lambda>s. (provider s, factory_calls s, tasks s 0, events (emitters s Buffer)))
     (run [Facade (On (Str ''a'') (Cb 1)), Invoke 0 (Request 0), FactoryRejects 0 7, Resume 0,
           Facade (Once (Str ''removeListener'') (Cb 2))]
        (new_LazyInitializationProvider (\<lambda>_. new_EventEmitter) 0))
   = Some (None, 1, Done (Rejected (FactoryFailure 7)),
           [(Str ''a'', [Cb 1]),
            (Str ''removeListener'', [OnceWrapper 0 Buffer (Str ''removeListener'') (Cb 2)])]) \<and>
   map_option (\<lambda>s. (provider s, factory_calls s, events (emitters s Buffer),
                    events (emitters s (Resource 0)), trace s))
     (run [Facade (On (Str ''a'') (Cb 1)), Invoke 0 (Request 0), FactoryRejects 0 7, Resume 0,
           Facade (Once (Str ''removeListener'') (Cb 2)),
           Invoke 1 (Request 1), FactoryResolves 1 0]
        (new_LazyInitializationProvider (\<lambda>_. new_EventEmitter) 0))
   = Some (Some 0, 2, [], [(Str ''a'', [Cb 1])],
           [OnceFired 0, Called 2 [Name (Str ''a''), Fun (Cb 1)]]) \<and>
   map_option (\<lambda>s. (provider s, factory_calls s, events (emitters s Buffer),
                    events (emitters s (Resource 0)), trace s))
     (run [Facade (On (Str ''a'') (Cb 1)), Invoke 0 (Request 0), FactoryRejects 0 7, Resume 0,
           Facade (Once (Str ''b'') (Cb 2)),
           Invoke 1 (Request 1), FactoryResolves 1 0]
        (new_LazyInitializationProvider (\<lambda>_. new_EventEmitter) 0))
   = Some (Some 0, 2, [],
           [(Str ''a'', [Cb 1]), (Str ''b'', [OnceWrapper 0 Buffer (Str ''b'') (Cb 2)])], [])"
  by code_simp

section \<open>The EventEmitter methods never initialize\<close>

text \<open>
  The third way to throw, on an input: three listeners registered with \<open>once\<close> for
  \<^verbatim>\<open>removeListener\<close>, then \<^verbatim>\<open>removeAllListeners('removeListener')\<close>. The removal of the
  last wrapper calls the first, whose own removal calls the second; the array is left with
  one entry and the loop reads index 1. With two such listeners nothing is thrown. The
  outcome is the same before and after initialization.
\<close>

lemma removeAllListeners_reads_past_end:
  "map_option (\<lambda>s. (provider s, fst (removeAllListeners (Some (Str ''removeListener'')) s)))
     (run [Facade (Once (Str ''removeListener'') (Cb 1)),
           Facade (Once (Str ''removeListener'') (Cb 2)),
           Facade (Once (Str ''removeListener'') (Cb 3))]
        (new_LazyInitializationProvider (\<lambda>_. new_EventEmitter) 0))
   = Some (None, Inl ERR_INVALID_ARG_TYPE) \<and>
   map_option (\<lambda>s. (provider s, fst (removeAllListeners (Some (Str ''removeListener'')) s)))
     (run [Invoke 0 (Request 0), FactoryResolves 0 0, Resume 0,
           Facade (Once (Str ''removeListener'') (Cb 1)),
           Facade (Once (Str ''removeListener'') (Cb 2)),
           Facade (Once (Str ''removeListener'') (Cb 3))]
        (new_LazyInitializationProvider (\<lambda>_. new_EventEmitter) 0))
   = Some (Some 0, Inl ERR_INVALID_ARG_TYPE) \<and>
   map_option (\<lambda>s. (provider s, fst (removeAllListeners (Some (Str ''removeListener'')) s)))
     (run [Facade (Once (Str ''removeListener'') (Cb 1)),
           Facade (Once (Str ''removeListener'') (Cb 2))]
        (new_LazyInitializationProvider (\<lambda>_. new_EventEmitter) 0))
   = Some (None, Inr This)"
  by code_simp

text \<open>
  C5: each of the fifteen EventEmitter methods of the provider object (\<open>addListener\<close>,
  \<open>on\<close>, \<open>once\<close>, \<open>prependListener\<close>, \<open>prependOnceListener\<close>,
  \<open>removeListener\<close>, \<open>off\<close>, \<open>removeAllListeners\<close>, \<open>setMaxListeners\<close>,
  \<open>getMaxListeners\<close>, \<open>listeners\<close>, \<open>rawListeners\<close>, \<open>emit\<close>,
  \<open>eventNames\<close>, \<open>listenerCount\<close>), in any state, initialized or not, leaves the
  number of factory calls, the field \<open>provider\<close>, the pending remote calls and the calls
  made on resources as they were; and it throws exactly when the emitter it is routed to
  throws by its own rules, never because of the initialization state. Those rules are a
  negative limit and an unhandled \<open>error\<close> event (\<^const>\<open>throws\<close>), and the loop of
  \<^verbatim>\<open>removeAllListeners\<close> reading past the end of its array when listeners of
  \<^verbatim>\<open>removeListener\<close> have shortened it (\<^const>\<open>reads_past_end\<close>).
\<close>

theorem facade_never_initializes:
  "factory_calls (snd (facade op s)) = factory_calls s \<and>
   provider (snd (facade op s)) = provider s \<and>
   tasks (snd (facade op s)) = tasks s \<and>
   rpc (snd (facade op s)) = rpc s \<and>
   isl (fst (facade op s)) = (throws op (emitters s (getEmitter s)) \<or> reads_past_end op s)"
  using facade_frame [of op s] facade_throws [of op s] by simp

section \<open>sendAsync reports a failed construction to its callback\<close>

text \<open>
  C6: \<open>sendAsync p cb\<close> is invoked as task \<open>t\<close> in a state that a new provider object
  reaches; steps of other tasks, EventEmitter methods and events of resources may come in
  between. If the factory's promise of the task is rejected with \<open>x\<close>, then none of the
  task's three steps (the invocation, the rejection, the continuation) forwards a call to
  any resource; the continuation calls \<open>cb\<close> with that failure and no result, the task
  ends without a rejection and takes no further step. Run without interleaving on an
  uninitialized object, the three steps leave the calls made on resources as they were
  and add the one call of \<open>cb\<close>. If instead the promise is fulfilled, the invocation and
  the resolution forward nothing, and the continuation forwards \<open>sendAsync p cb\<close> to the
  resource the field \<open>provider\<close> holds and does not call \<open>cb\<close> itself; the same when
  the field was set already at the time of the call, in which case the factory is not
  called.
\<close>

theorem sendAsync_failure_goes_to_callback:
  assumes reach: "run acts (new_LazyInitializationProvider world n) = Some s"
    and others: "list_all (\<lambda>a. task_of a \<noteq> Some t) as" "list_all (\<lambda>a. task_of a \<noteq> Some t) bs"
  shows "(run (Invoke t (SendAsync p cb) # as @ FactoryRejects t x # bs) s = Some sx \<longrightarrow>
            (\<exists>sa sb sc s2.
                   step (Invoke t (SendAsync p cb)) s = Some sa \<and>
                   rpc sa = rpc s \<and> trace sa = trace s \<and>
                   run as sa = Some sb \<and>
                   step (FactoryRejects t x) sb = Some sc \<and>
                   rpc sc = rpc sb \<and> trace sc = trace sb \<and>
                   run bs sc = Some sx \<and>
                   step (Resume t) sx = Some s2 \<and>
                   trace s2 = trace sx @ [SendAsyncCallback cb (FactoryFailure x)] \<and>
                   rpc s2 = rpc sx \<and>
                   tasks s2 t = Done (ErrorToCallback (FactoryFailure x)) \<and>
                   (\<forall>a. task_of a = Some t \<longrightarrow> step a s2 = None))) \<and>
         (provider s = None \<longrightarrow> tasks s t = Idle \<longrightarrow>
            (\<exists>s'. run [Invoke t (SendAsync p cb), FactoryRejects t x, Resume t] s = Some s' \<and>
                   rpc s' = rpc s \<and>
                   trace s' = trace s @ [SendAsyncCallback cb (FactoryFailure x)] \<and>
                   tasks s' t = Done (ErrorToCallback (FactoryFailure x)))) \<and>
         (run (Invoke t (SendAsync p cb) # as @ FactoryResolves t r # bs) s = Some sy \<longrightarrow>
            (\<exists>sa sb sc s2 r'.
                   step (Invoke t (SendAsync p cb)) s = Some sa \<and> rpc sa = rpc s \<and>
                   run as sa = Some sb \<and>
                   step (FactoryResolves t r) sb = Some sc \<and> rpc sc = rpc sb \<and>
                   run bs sc = Some sy \<and>
                   step (Resume t) sy = Some s2 \<and> provider sy = Some r' \<and>
                   rpc s2 = rpc sy @ [(r', SendAsync p cb)] \<and> trace s2 = trace sy \<and>
                   tasks s2 t = Done (Forwarded r'))) \<and>
         (provider s \<noteq> None \<longrightarrow> run (Invoke t (SendAsync p cb) # as) s = Some sz \<longrightarrow>
            (\<exists>sa s2 r'.
                   step (Invoke t (SendAsync p cb)) s = Some sa \<and> rpc sa = rpc s \<and>
                   run as sa = Some sz \<and>
                   step (Resume t) sz = Some s2 \<and> provider sz = Some r' \<and>
                   rpc s2 = rpc sz @ [(r', SendAsync p cb)] \<and> trace s2 = trace sz \<and>
                   tasks s2 t = Done (Forwarded r') \<and> factory_calls sz = factory_calls s))"
proof (intro conjI impI)
  assume "run (Invoke t (SendAsync p cb) # as @ FactoryRejects t x # bs) s = Some sx"
  then obtain sa sb sc where st:
    "step (Invoke t (SendAsync p cb)) s = Some sa" "run as sa = Some sb"
    "step (FactoryRejects t x) sb = Some sc" "run bs sc = Some sx"
    by (auto simp del: run.simps step.simps simp: run_Cons_Some run_append_Some)
  have "tasks sb t = tasks sa t"
    using run_other_tasks [OF st(2) others(1)] .
  with invoke_pending [OF st(1)] st(3)
  have sc: "sc = initProvider_rejected t (SendAsync p cb) x sb"
    by (auto split: task.splits)
  then have "tasks sc t = AwaitInit (SendAsync p cb) (Some (FactoryFailure x))"
    by (simp add: initProvider_rejected_def)
  then have t1: "tasks sx t = AwaitInit (SendAsync p cb) (Some (FactoryFailure x))"
    using run_other_tasks [OF st(4) others(2)] by simp
  have fc: "rpc sc = rpc sb" "trace sc = trace sb"
    using sc by (simp_all add: initProvider_rejected_def)
  let ?s2 = "continue t (SendAsync p cb) (Some (FactoryFailure x)) sx"
  have r: "step (Resume t) sx = Some ?s2" using t1 by simp
  have d: "tasks ?s2 t = Done (ErrorToCallback (FactoryFailure x))" by simp
  then have fin: "\<forall>a. task_of a = Some t \<longrightarrow> step a ?s2 = None"
    using done_is_final by blast
  have c: "trace ?s2 = trace sx @ [SendAsyncCallback cb (FactoryFailure x)]" "rpc ?s2 = rpc sx"
    by simp_all
  show "\<exists>sa sb sc s2.
                   step (Invoke t (SendAsync p cb)) s = Some sa \<and>
                   rpc sa = rpc s \<and> trace sa = trace s \<and>
                   run as sa = Some sb \<and>
                   step (FactoryRejects t x) sb = Some sc \<and>
                   rpc sc = rpc sb \<and> trace sc = trace sb \<and>
                   run bs sc = Some sx \<and>
                   step (Resume t) sx = Some s2 \<and>
                   trace s2 = trace sx @ [SendAsyncCallback cb (FactoryFailure x)] \<and>
                   rpc s2 = rpc sx \<and>
                   tasks s2 t = Done (ErrorToCallback (FactoryFailure x)) \<and>
                   (\<forall>a. task_of a = Some t \<longrightarrow> step a s2 = None)"
    using st invoke_frame [OF st(1)] fc r c d fin
    by (intro exI [of _ sa] exI [of _ sb] exI [of _ sc] exI [of _ ?s2]) simp
next
  assume "provider s = None" and "tasks s t = Idle"
  then show "\<exists>s'. run [Invoke t (SendAsync p cb), FactoryRejects t x, Resume t] s = Some s' \<and>
                   rpc s' = rpc s \<and>
                   trace s' = trace s @ [SendAsyncCallback cb (FactoryFailure x)] \<and>
                   tasks s' t = Done (ErrorToCallback (FactoryFailure x))"
    by (simp add: initProvider_call_def initProvider_rejected_def)
next
  assume "run (Invoke t (SendAsync p cb) # as @ FactoryResolves t r # bs) s = Some sy"
  then obtain sa sb sc where st:
    "step (Invoke t (SendAsync p cb)) s = Some sa" "run as sa = Some sb"
    "step (FactoryResolves t r) sb = Some sc" "run bs sc = Some sy"
    by (auto simp del: run.simps step.simps simp: run_Cons_Some run_append_Some)
  have "run (acts @ Invoke t (SendAsync p cb) # as) (new_LazyInitializationProvider world n) = Some sb"
    using reach st(1,2) by (simp add: run_append)
  then have "buffer_ok (emitters sb Buffer)"
    using buffer_ok_new buffer_ok_run by blast
  then have ok: "buffer_ok (emitters (created r sb) Buffer)"
    by (simp add: created_def)
  have "tasks sb t = tasks sa t"
    using run_other_tasks [OF st(2) others(1)] .
  with invoke_pending [OF st(1)] st(3)
  have sc: "sc = initProvider_resolved t (SendAsync p cb) r (created r sb)"
    by (auto split: task.splits)
  have l: "tasks sc t = AwaitInit (SendAsync p cb) None" "provider sc \<noteq> None" "rpc sc = rpc sb"
    using initProvider_resolved_limit [OF ok, of t "SendAsync p cb" r] sc
    by (simp_all add: created_def)
  then have t1: "tasks sy t = AwaitInit (SendAsync p cb) None" and "provider sy \<noteq> None"
    using run_other_tasks [OF st(4) others(2)] provider_never_cleared [OF st(4)] by simp_all
  then obtain r' where r': "provider sy = Some r'" by auto
  let ?s2 = "forward t (SendAsync p cb) sy"
  have "step (Resume t) sy = Some ?s2" using t1 by simp
  then show "\<exists>sa sb sc s2 r'.
                   step (Invoke t (SendAsync p cb)) s = Some sa \<and> rpc sa = rpc s \<and>
                   run as sa = Some sb \<and>
                   step (FactoryResolves t r) sb = Some sc \<and> rpc sc = rpc sb \<and>
                   run bs sc = Some sy \<and>
                   step (Resume t) sy = Some s2 \<and> provider sy = Some r' \<and>
                   rpc s2 = rpc sy @ [(r', SendAsync p cb)] \<and> trace s2 = trace sy \<and>
                   tasks s2 t = Done (Forwarded r')"
    using r' st invoke_frame [OF st(1)] l(3)
    by (intro exI [of _ sa] exI [of _ sb] exI [of _ sc] exI [of _ ?s2] exI [of _ r'])
       (simp add: forward_def)
next
  assume init: "provider s \<noteq> None"
    and "run (Invoke t (SendAsync p cb) # as) s = Some sz"
  then obtain sa where st:
    "step (Invoke t (SendAsync p cb)) s = Some sa" "run as sa = Some sz"
    by (auto simp del: run.simps step.simps simp: run_Cons_Some)
  have "tasks sa t = AwaitInit (SendAsync p cb) None"
    using st(1) init by (auto simp: initProvider_call_def split: if_splits)
  then have t1: "tasks sz t = AwaitInit (SendAsync p cb) None"
    using run_other_tasks [OF st(2) others(1)] by simp
  have "run (Invoke t (SendAsync p cb) # as) s = Some sz"
    using st by simp
  from provider_never_cleared [OF this init] factory_not_called_again [OF this init]
  obtain r' where r': "provider sz = Some r'" and f: "factory_calls sz = factory_calls s"
    by auto
  have "step (Resume t) sz = Some (forward t (SendAsync p cb) sz)" using t1 by simp
  then show "\<exists>sa s2 r'.
                   step (Invoke t (SendAsync p cb)) s = Some sa \<and> rpc sa = rpc s \<and>
                   run as sa = Some sz \<and>
                   step (Resume t) sz = Some s2 \<and> provider sz = Some r' \<and>
                   rpc s2 = rpc sz @ [(r', SendAsync p cb)] \<and> trace s2 = trace sz \<and>
                   tasks s2 t = Done (Forwarded r') \<and> factory_calls sz = factory_calls s"
    using r' f st invoke_frame [OF st(1)]
    by (intro exI [of _ sa] exI [of _ "forward t (SendAsync p cb) sz"] exI [of _ r'])
       (simp add: forward_def)
qed

theorem sendAsync_failure_goes_to_callback_witness:
  "(\<exists>sx s2.
      run [Invoke 0 (SendAsync 7 3), Facade (On (Str ''a'') (Cb 1)), FactoryRejects 0 9]
        (new_LazyInitializationProvider (\<lambda>_. new_EventEmitter) 0) = Some sx \<and>
      step (Resume 0) sx = Some s2 \<and>
      trace s2 = trace sx @ [SendAsyncCallback 3 (FactoryFailure 9)] \<and> rpc s2 = rpc sx \<and>
      tasks s2 0 = Done (ErrorToCallback (FactoryFailure 9)) \<and> step (Resume 0) s2 = None) \<and>
   (\<exists>s'.
      run [Invoke 0 (SendAsync 7 3), FactoryRejects 0 9, Resume 0]
        (new_LazyInitializationProvider (\<lambda>_. new_EventEmitter) 0) = Some s' \<and>
      rpc s' = [] \<and> trace s' = [SendAsyncCallback 3 (FactoryFailure 9)] \<and>
      tasks s' 0 = Done (ErrorToCallback (FactoryFailure 9))) \<and>
   (\<exists>sy s2.
      run [Invoke 0 (SendAsync 7 3), Facade (On (Str ''a'') (Cb 1)), FactoryResolves 0 0]
        (new_LazyInitializationProvider (\<lambda>_. new_EventEmitter) 0) = Some sy \<and>
      step (Resume 0) sy = Some s2 \<and>
      rpc s2 = rpc sy @ [(0, SendAsync 7 3)] \<and> trace s2 = trace sy \<and>
      tasks s2 0 = Done (Forwarded 0)) \<and>
   (\<exists>sz s2.
      run [Invoke 0 (Request 0), FactoryResolves 0 0, Invoke 1 (SendAsync 7 3)]
        (new_LazyInitializationProvider (\<lambda>_. new_EventEmitter) 0) = Some sz \<and>
      step (Resume 1) sz = Some s2 \<and>
      rpc s2 = rpc sz @ [(0, SendAsync 7 3)] \<and> trace s2 = trace sz \<and>
      tasks s2 1 = Done (Forwarded 0) \<and> factory_calls sz = 1)"
proof -
  let ?P = "new_LazyInitializationProvider (\<lambda>_. new_EventEmitter) 0"
  let ?A = "snd (on (Str ''a'') (Cb 1) (initProvider_call 0 (SendAsync 7 3) ?P))"
  let ?X = "initProvider_rejected 0 (SendAsync 7 3) 9 ?A"
  let ?Y = "initProvider_resolved 0 (SendAsync 7 3) 0 (created 0 ?A)"
  have reach: "run [] ?P = Some ?P" by simp
  have o: "list_all (\<lambda>a. task_of a \<noteq> Some 0) [Facade (On (Str ''a'') (Cb 1))]"
    "list_all (\<lambda>a. task_of a \<noteq> Some 0) []"
    by simp_all
  have p0: "provider ?P = None" "tasks ?P 0 = Idle" "rpc ?P = []" "trace ?P = []"
    by (simp_all add: new_LazyInitializationProvider_def)
  have ta: "tasks ?A 0 = AwaitFactory (SendAsync 7 3)"
    using facade_frame [of "On (Str ''a'') (Cb 1)" "initProvider_call 0 (SendAsync 7 3) ?P"]
    by (simp add: new_LazyInitializationProvider_def initProvider_call_def)
  have rx: "run [Invoke 0 (SendAsync 7 3), Facade (On (Str ''a'') (Cb 1)), FactoryRejects 0 9] ?P = Some ?X"
    using ta p0 by simp
  have ry: "run [Invoke 0 (SendAsync 7 3), Facade (On (Str ''a'') (Cb 1)), FactoryResolves 0 0] ?P = Some ?Y"
    using ta p0 by simp
  have rx': "run (Invoke 0 (SendAsync 7 3) # [Facade (On (Str ''a'') (Cb 1))] @ FactoryRejects 0 9 # []) ?P
             = Some ?X"
    using rx by simp
  have ry': "run (Invoke 0 (SendAsync 7 3) # [Facade (On (Str ''a'') (Cb 1))] @ FactoryResolves 0 0 # []) ?P
             = Some ?Y"
    using ry by simp
  have py: "provider ?Y = Some 0"
    by (simp add: initProvider_resolved_def Let_def created_def split: sum.splits)
  note inst = sendAsync_failure_goes_to_callback [OF reach o, where sx = ?X and sy = ?Y
      and p = 7 and cb = 3 and x = 9 and r = 0]
  from inst rx' obtain s2 where
    x: "step (Resume 0) ?X = Some s2"
       "trace s2 = trace ?X @ [SendAsyncCallback 3 (FactoryFailure 9)]" "rpc s2 = rpc ?X"
       "tasks s2 0 = Done (ErrorToCallback (FactoryFailure 9))"
       "\<forall>a. task_of a = Some 0 \<longrightarrow> step a s2 = None"
    by blast
  from inst ry' obtain s2' r' where
    y: "step (Resume 0) ?Y = Some s2'" "provider ?Y = Some r'"
       "rpc s2' = rpc ?Y @ [(r', SendAsync 7 3)]" "trace s2' = trace ?Y"
       "tasks s2' 0 = Done (Forwarded r')"
    by blast
  from inst p0 obtain s' where
    d: "run [Invoke 0 (SendAsync 7 3), FactoryRejects 0 9, Resume 0] ?P = Some s'"
       "rpc s' = rpc ?P" "trace s' = trace ?P @ [SendAsyncCallback 3 (FactoryFailure 9)]"
       "tasks s' 0 = Done (ErrorToCallback (FactoryFailure 9))"
    by blast
  have "task_of (Resume 0) = Some 0" by simp
  with x(5) have nx: "step (Resume 0) s2 = None" by blast
  have r0: "r' = 0" using y(2) py by simp
  let ?I = "initProvider_resolved 0 (Request 0) 0 (created 0 (initProvider_call 0 (Request 0) ?P))"
  let ?Z = "initProvider_call 1 (SendAsync 7 3) ?I"
  have i: "provider ?I = Some 0" "tasks ?I 1 = Idle" "factory_calls ?I = 1"
    by (simp_all add: initProvider_resolved_def Let_def initProvider_call_def created_def
        new_LazyInitializationProvider_def split: sum.splits)
  have ri: "run [Invoke 0 (Request 0), FactoryResolves 0 0] ?P = Some ?I"
    by (simp add: initProvider_call_def new_LazyInitializationProvider_def)
  have rz: "run (Invoke 1 (SendAsync 7 3) # []) ?I = Some ?Z"
    using i by simp
  have rz': "run [Invoke 0 (Request 0), FactoryResolves 0 0, Invoke 1 (SendAsync 7 3)] ?P = Some ?Z"
    using ri rz run_append [of "[Invoke 0 (Request 0), FactoryResolves 0 0]" "[Invoke 1 (SendAsync 7 3)]" ?P]
    by (simp del: run.simps)
  have o1: "list_all (\<lambda>a. task_of a \<noteq> Some 1) []" by simp
  from sendAsync_failure_goes_to_callback [OF ri o1 o1, where sz = ?Z and p = 7 and cb = 3] i(1) rz
  obtain s3 r3 where
    z: "step (Resume 1) ?Z = Some s3" "provider ?Z = Some r3"
       "rpc s3 = rpc ?Z @ [(r3, SendAsync 7 3)]" "trace s3 = trace ?Z"
       "tasks s3 1 = Done (Forwarded r3)" "factory_calls ?Z = factory_calls ?I"
    by blast
  have r3: "r3 = 0" using z(2) i(1) by (simp add: initProvider_call_def)
  show ?thesis
  proof (intro conjI)
    show "\<exists>sz s2.
      run [Invoke 0 (Request 0), FactoryResolves 0 0, Invoke 1 (SendAsync 7 3)] ?P = Some sz \<and>
      step (Resume 1) sz = Some s2 \<and>
      rpc s2 = rpc sz @ [(0, SendAsync 7 3)] \<and> trace s2 = trace sz \<and>
      tasks s2 1 = Done (Forwarded 0) \<and> factory_calls sz = 1"
      using rz' z(1,3,4,5,6) i(3) unfolding r3 by (intro exI [of _ ?Z] exI [of _ s3]) simp
    show "\<exists>sx s2.
      run [Invoke 0 (SendAsync 7 3), Facade (On (Str ''a'') (Cb 1)), FactoryRejects 0 9] ?P = Some sx \<and>
      step (Resume 0) sx = Some s2 \<and>
      trace s2 = trace sx @ [SendAsyncCallback 3 (FactoryFailure 9)] \<and> rpc s2 = rpc sx \<and>
      tasks s2 0 = Done (ErrorToCallback (FactoryFailure 9)) \<and> step (Resume 0) s2 = None"
      using rx x(1-4) nx by blast
    show "\<exists>s'.
      run [Invoke 0 (SendAsync 7 3), FactoryRejects 0 9, Resume 0] ?P = Some s' \<and>
      rpc s' = [] \<and> trace s' = [SendAsyncCallback 3 (FactoryFailure 9)] \<and>
      tasks s' 0 = Done (ErrorToCallback (FactoryFailure 9))"
      using d p0 by (intro exI [of _ s']) simp
    show "\<exists>sy s2.
      run [Invoke 0 (SendAsync 7 3), Facade (On (Str ''a'') (Cb 1)), FactoryResolves 0 0] ?P = Some sy \<and>
      step (Resume 0) sy = Some s2 \<and>
      rpc s2 = rpc sy @ [(0, SendAsync 7 3)] \<and> trace s2 = trace sy \<and>
      tasks s2 0 = Done (Forwarded 0)"
      using ry y(1,3,4,5) unfolding r0 by blast
  qed
qed

section \<open>The limit set before construction\<close>

text \<open>
  C7 says that a limit set with \<open>setMaxListeners\<close> before construction is what the
  resource reports after it, the setting being applied to the resource exactly once, at
  migration time. Line 156 runs in every continuation of \<^verbatim>\<open>_initProvider\<close> that
  passed the guard, so with two remote calls invoked before either factory promise settles
  (see C1) the limit of \<^verbatim>\<open>_emitter\<close> is written twice. After \<open>setMaxListeners 25\<close>,
  two such calls and the first resolution, the resource reports 25; the caller then sets 30
  on the initialized provider object, and the second resolution, to the same resource,
  writes 25 over it. With one remote call the limit 30 stays. On this input the code does
  not do what C7 says.
\<close>

theorem second_resolution_resets_maxListeners:
  "map_option (\<lambda>s. (provider s, maxListeners (emitters s (Resource 0)), fst (getMaxListeners s)))
     (run [Facade (SetMaxListeners 25), Invoke 0 (Request 0), Invoke 1 (Request 1),
           FactoryResolves 0 0]
        (new_LazyInitializationProvider (\<lambda>_. new_EventEmitter) 0))
   = Some (Some 0, Some 25, Inr (Number 25)) \<and>
   map_option (\<lambda>s. (provider s, maxListeners (emitters s (Resource 0)), fst (getMaxListeners s)))
     (run [Facade (SetMaxListeners 25), Invoke 0 (Request 0), Invoke 1 (Request 1),
           FactoryResolves 0 0, Facade (SetMaxListeners 30), FactoryResolves 1 0]
        (new_LazyInitializationProvider (\<lambda>_. new_EventEmitter) 0))
   = Some (Some 0, Some 25, Inr (Number 25)) \<and>
   map_option (\<lambda>s. (provider s, maxListeners (emitters s (Resource 0)), fst (getMaxListeners s)))
     (run [Facade (SetMaxListeners 25), Invoke 0 (Request 0),
           FactoryResolves 0 0, Facade (SetMaxListeners 30)]
        (new_LazyInitializationProvider (\<lambda>_. new_EventEmitter) 0))
   = Some (Some 0, Some 30, Inr (Number 30))"
  by code_simp

section \<open>The buffer after initialization\<close>

text \<open>
  C8 says that after a successful initialization the buffer holds no listeners. The
  migration removes each listener with \<^verbatim>\<open>this._emitter.removeListener(event, listener)\<close>,
  which removes the last entry that is the function or a wrapper around it. When a
  callback was registered with \<open>on\<close> and then with \<open>once\<close> for the same event, the
  removal of the callback takes the wrapper away, and the removal of the wrapper then
  finds nothing: the callback stays in the buffer. On this input the code
  does not do what C8 says; the resource does get both listeners, in order.
\<close>

theorem drained_buffer_fails:
  "map_option (\<lambda>s. (provider s, listeners_of (emitters s Buffer) (Str ''a''),
                    listeners_of (emitters s (Resource 0)) (Str ''a'')))
     (run [Facade (On (Str ''a'') (Cb 5)), Facade (Once (Str ''a'') (Cb 5)),
           Invoke 0 (Request 0), FactoryResolves 0 0]
        (new_LazyInitializationProvider (\<lambda>_. new_EventEmitter) 0))
   = Some (Some 0, [Cb 5], [Cb 5, OnceWrapper 0 Buffer (Str ''a'') (Cb 5)])"
  by code_simp

section \<open>The field provider after initialization\<close>

text \<open>
  Once the field \<open>provider\<close> is set, no step unsets it and no step calls the factory
  (\<open>provider_never_cleared\<close>, \<open>factory_not_called_again\<close>). C9 says moreover that no
  operation assigns it again and that every later call goes to that same resource. A
  remote call that was invoked before the field was set has called the factory itself
  (see C1); when its promise is fulfilled, line 143 assigns the field again. With two
  calls invoked on a new object, the first resolution sets the field to resource 0 and
  moves the listener there; the second sets it to resource 1, and from then on the
  provider object lists no listener and forwards every call, the first one and a later
  one too, to resource 1. On this input the code does not do what C9 says.
\<close>

theorem second_resolution_reassigns_provider:
  "map_option provider
     (run [Facade (On (Str ''a'') (Cb 1)), Invoke 0 (Request 0), Invoke 1 (Request 1),
           FactoryResolves 0 0]
        (new_LazyInitializationProvider (\<lambda>_. new_EventEmitter) 0)) = Some (Some 0) \<and>
   map_option (\<lambda>s. (provider s, factory_calls s, fst (listeners (Str ''a'') s), rpc s))
     (run [Facade (On (Str ''a'') (Cb 1)), Invoke 0 (Request 0), Invoke 1 (Request 1),
           FactoryResolves 0 0, FactoryResolves 1 1, Resume 0, Resume 1,
           Invoke 2 (Request 2), Resume 2]
        (new_LazyInitializationProvider (\<lambda>_. new_EventEmitter) 0))
   = Some (Some 1, 2, Inr (Functions []), [(1, Request 0), (1, Request 1), (1, Request 2)])"
  by code_simp

section \<open>The limit is written on every initialization\<close>

text \<open>
  C10: in every state that a new provider object reaches, when the factory's promise of
  a waiting call is fulfilled with the resource \<open>r\<close>, the limit of \<open>r\<close> becomes what
  \<^verbatim>\<open>this._emitter.getMaxListeners()\<close> returns, whatever limit \<open>r\<close> had before and
  whether or not a caller ever set one; if none was set, that is the default limit.
\<close>

theorem migration_overwrites_maxListeners:
  assumes "run acts (new_LazyInitializationProvider world n) = Some s"
    and "tasks s t = AwaitFactory c"
  shows "\<exists>s'. step (FactoryResolves t r) s = Some s' \<and> provider s' = Some r \<and>
           maxListeners (emitters s' (Resource r)) = Some (getMaxListeners_em (emitters s Buffer)) \<and>
           (maxListeners (emitters s Buffer) = None \<longrightarrow>
              maxListeners (emitters s' (Resource r)) = Some defaultMaxListeners)"
proof -
  have "buffer_ok (emitters s Buffer)"
    using assms(1) buffer_ok_new buffer_ok_run by blast
  then have ok: "buffer_ok (emitters (created r s) Buffer)"
    by (simp add: created_def)
  show ?thesis
    using assms(2) initProvider_resolved_limit [OF ok, of t c r]
    by (simp add: getMaxListeners_em_def created_def)
qed

theorem migration_overwrites_maxListeners_witness:
  "\<exists>s'. step (FactoryResolves 0 0)
          (initProvider_call 0 (Request 0)
             (new_LazyInitializationProvider (\<lambda>_. \<lparr>events = [], maxListeners = Some 3\<rparr>) 0))
        = Some s' \<and>
        provider s' = Some 0 \<and> maxListeners (emitters s' (Resource 0)) = Some 10"
  using migration_overwrites_maxListeners
    [of "[Invoke 0 (Request 0)]" "\<lambda>_. \<lparr>events = [], maxListeners = Some 3\<rparr>" 0
        "initProvider_call 0 (Request 0)
           (new_LazyInitializationProvider (\<lambda>_. \<lparr>events = [], maxListeners = Some 3\<rparr>) 0)"
        0 "Request 0" 0]
  by (simp add: new_LazyInitializationProvider_def initProvider_call_def new_EventEmitter_def
      getMaxListeners_em_def defaultMaxListeners_def)

end
